theory Spec2Isabelle
  imports Main
begin

section \<open>The authentication middleware of the proxy service\<close>

text \<open>
  A shallow embedding of \<^verbatim>\<open>package middleware\<close> (the file that declares
  \<^verbatim>\<open>Authentication\<close>, \<^verbatim>\<open>isPublicPath\<close>, \<^verbatim>\<open>configureSupportedChallenges\<close>,
  \<^verbatim>\<open>userAgentAuthenticateLockIn\<close> and \<^verbatim>\<open>evalRequestURI\<close>).
  Go strings are byte sequences and are modelled as \<^typ>\<open>string\<close>.
\<close>

subsection \<open>Library functions of package strings\<close>

text \<open>\<^verbatim>\<open>strings.HasPrefix(s, prefix)\<close>: \<open>s\<close> begins with \<open>prefix\<close>.\<close>

fun HasPrefix :: "string \<Rightarrow> string \<Rightarrow> bool" where
  "HasPrefix s [] = True"
| "HasPrefix [] (p # ps) = False"
| "HasPrefix (c # s) (p # ps) = (c = p \<and> HasPrefix s ps)"

text \<open>\<^verbatim>\<open>strings.Contains(s, substr)\<close>: \<open>substr\<close> occurs within \<open>s\<close>.\<close>

fun Contains :: "string \<Rightarrow> string \<Rightarrow> bool" where
  "Contains [] substr = (substr = [])"
| "Contains (c # s) substr = (HasPrefix (c # s) substr \<or> Contains s substr)"

text \<open>
  \<^verbatim>\<open>strings.Title(s)\<close>: every letter that begins a word is mapped to its title case,
  where a word begins after a separator and the string starts as if after a space.
  ASCII letters, digits and the underscore are not separators, every other ASCII
  character is. The scheme names of this package are ASCII identifiers; a byte above
  0x7F is left as it is and is treated as no separator.
\<close>

definition isSeparator :: "char \<Rightarrow> bool" where
  "isSeparator c =
     (let n = (of_char c :: nat) in
      if n \<le> 127 then
        \<not> ((48 \<le> n \<and> n \<le> 57) \<or> (97 \<le> n \<and> n \<le> 122) \<or> (65 \<le> n \<and> n \<le> 90) \<or> n = 95)
      else False)"

definition ToTitle :: "char \<Rightarrow> char" where
  "ToTitle c =
     (case map_of (zip ''abcdefghijklmnopqrstuvwxyz'' ''ABCDEFGHIJKLMNOPQRSTUVWXYZ'') c of
        Some u \<Rightarrow> u
      | None \<Rightarrow> c)"

fun Title_after :: "char \<Rightarrow> string \<Rightarrow> string" where
  "Title_after prev [] = []"
| "Title_after prev (c # s) =
     (if isSeparator prev then ToTitle c else c) # Title_after c s"

definition Title :: "string \<Rightarrow> string" where
  "Title s = Title_after (CHR '' '') s"

subsection \<open>The compiled scope patterns\<close>

text \<open>
  Package regexp reads a string rune by rune, as \<^verbatim>\<open>utf8.DecodeRuneInString\<close>
  decodes it: a byte below 0x80 is a rune, a well-formed UTF-8 sequence of two to four
  bytes is a rune, and a byte that starts no well-formed sequence is a rune of its own
  (the replacement rune, of width one). \<open>rune_width\<close> is the width of the first rune
  of a non-empty string: the lead byte gives the length, the second byte must lie in the
  range that the lead byte accepts, the others are continuation bytes.
\<close>

definition between :: "nat \<Rightarrow> char \<Rightarrow> nat \<Rightarrow> bool" where
  "between lo c hi = (lo \<le> of_char c \<and> (of_char c :: nat) \<le> hi)"

fun rune_width :: "string \<Rightarrow> nat" where
  "rune_width [] = 0"
| "rune_width (b0 # rest) =
     (let n = (of_char b0 :: nat) in
      if n < 128 then 1
      else if 194 \<le> n \<and> n \<le> 223 then
        (case rest of
           b1 # _ \<Rightarrow> if between 128 b1 191 then 2 else 1
         | _ \<Rightarrow> 1)
      else if 224 \<le> n \<and> n \<le> 239 then
        (case rest of
           b1 # b2 # _ \<Rightarrow>
             if between (if n = 224 then 160 else 128) b1 (if n = 237 then 159 else 191) \<and>
                between 128 b2 191
             then 3 else 1
         | _ \<Rightarrow> 1)
      else if 240 \<le> n \<and> n \<le> 244 then
        (case rest of
           b1 # b2 # b3 # _ \<Rightarrow>
             if between (if n = 240 then 144 else 128) b1 (if n = 244 then 143 else 191) \<and>
                between 128 b2 191 \<and> between 128 b3 191
             then 4 else 1
         | _ \<Rightarrow> 1)
      else 1)"

text \<open>
  The runes of a string, each as the bytes that encode it; the first argument counts
  the bytes of the current rune that are still to be passed over.
\<close>

fun runes_from :: "nat \<Rightarrow> string \<Rightarrow> string list" where
  "runes_from k [] = []"
| "runes_from 0 (c # s) =
     take (rune_width (c # s)) (c # s) # runes_from (rune_width (c # s) - 1) s"
| "runes_from (Suc k) (c # s) = runes_from k s"

definition runes :: "string \<Rightarrow> string list" where
  "runes s = runes_from 0 s"

text \<open>
  The only pattern the package compiles is \<^verbatim>\<open>/ocs/v[12].php/cloud/\<close>: a sequence of
  literals, one character class and one dot. A pattern is the list of its atoms, each of
  which takes one rune: a literal and a class member are the rune of that one byte, and
  the dot is every rune but the line feed. \<^verbatim>\<open>MatchString\<close> looks for a match that
  starts at any rune of the string.
\<close>

datatype re_atom = Lit char | OneOf "char list" | AnyChar

type_synonym Regexp = "re_atom list"

fun atom_matches :: "re_atom \<Rightarrow> string \<Rightarrow> bool" where
  "atom_matches (Lit c) r = (r = [c])"
| "atom_matches (OneOf cs) r = (r \<in> set (map (\<lambda>c. [c]) cs))"
| "atom_matches AnyChar r = (r \<noteq> [CHR 0x0A])"

fun match_here :: "Regexp \<Rightarrow> string list \<Rightarrow> bool" where
  "match_here [] rs = True"
| "match_here (a # as) [] = False"
| "match_here (a # as) (r # rs) = (atom_matches a r \<and> match_here as rs)"

fun match_from_any :: "Regexp \<Rightarrow> string list \<Rightarrow> bool" where
  "match_from_any re [] = match_here re []"
| "match_from_any re (r # rs) = (match_here re (r # rs) \<or> match_from_any re rs)"

definition MatchString :: "Regexp \<Rightarrow> string \<Rightarrow> bool" where
  "MatchString re s = match_from_any re (runes s)"

definition ocs_cloud :: Regexp where
  "ocs_cloud = map Lit ''/ocs/v'' @ [OneOf ''12'', AnyChar] @ map Lit ''php/cloud/''"

definition ProxyWwwAuthenticate :: "Regexp list" where
  "ProxyWwwAuthenticate = [ocs_cloud]"

definition publicPaths :: "string list" where
  "publicPaths =
     [''/dav/public-files/'',
      ''/remote.php/dav/public-files/'',
      ''/remote.php/ocs/apps/files_sharing/api/v1/tokeninfo/unprotected'',
      ''/ocs/v1.php/cloud/capabilities'',
      ''/data'']"

definition WwwAuthenticate :: string where
  "WwwAuthenticate = ''Www-Authenticate''"

subsection \<open>Requests, response writers and headers\<close>

text \<open>
  \<^verbatim>\<open>http.Header\<close> maps a canonical header name to its list of values.
  \<^verbatim>\<open>Add\<close> appends a value, \<^verbatim>\<open>Del\<close> removes the name, \<^verbatim>\<open>Get\<close> reads the
  first value or the empty string. The names used here (\<^verbatim>\<open>Www-Authenticate\<close>,
  \<^verbatim>\<open>User-Agent\<close>) are already in canonical form.
\<close>

type_synonym HttpHeader = "string \<rightharpoonup> string list"

definition Values :: "HttpHeader \<Rightarrow> string \<Rightarrow> string list" where
  "Values h k = (case h k of None \<Rightarrow> [] | Some vs \<Rightarrow> vs)"

definition Add :: "string \<Rightarrow> string \<Rightarrow> HttpHeader \<Rightarrow> HttpHeader" where
  "Add k v h = h(k \<mapsto> Values h k @ [v])"

definition Del :: "string \<Rightarrow> HttpHeader \<Rightarrow> HttpHeader" where
  "Del k h = h(k := None)"

definition Get :: "HttpHeader \<Rightarrow> string \<Rightarrow> string" where
  "Get h k = (case Values h k of [] \<Rightarrow> [] | v # vs \<Rightarrow> v)"

text \<open>
  The fields of \<^verbatim>\<open>*http.Request\<close> the middleware reads. \<open>Identity\<close> stands for
  what a successful Authenticator attaches to the request it returns.
\<close>

record Request =
  Method :: string
  URL_Path :: string
  RequestURI :: string
  Host :: string
  Header :: HttpHeader
  Identity :: "string list"

definition UserAgent :: "Request \<Rightarrow> string" where
  "UserAgent req = Get (Header req) ''User-Agent''"

text \<open>
  What is written to the response body: raw text, or the serialised WebDAV fault.
\<close>

datatype Payload = Plain string | WebdavFault string string

text \<open>
  An \<^verbatim>\<open>http.ResponseWriter\<close>: \<open>header\<close> is the map \<^verbatim>\<open>w.Header()\<close> returns,
  \<open>status\<close> is the status line once it has been written, \<open>sent\<close> is the header
  as it was when the status line was written (later changes of \<open>header\<close> do not
  reach the client), \<open>body\<close> is what has been written after it.
\<close>

record ResponseWriter =
  header :: HttpHeader
  status :: "nat option"
  sent :: HttpHeader
  body :: "Payload list"

definition WriteHeader :: "nat \<Rightarrow> ResponseWriter \<Rightarrow> ResponseWriter" where
  "WriteHeader code rw =
     (if status rw = None then rw\<lparr>status := Some code, sent := header rw\<rparr> else rw)"

definition Write :: "Payload \<Rightarrow> ResponseWriter \<Rightarrow> ResponseWriter" where
  "Write b rw = (let rw' = WriteHeader 200 rw in rw'\<lparr>body := body rw' @ [b]\<rparr>)"

definition StatusUnauthorized :: nat where
  "StatusUnauthorized = 401"

definition StatusText :: "nat \<Rightarrow> string" where
  "StatusText code = (if code = 401 then ''Unauthorized'' else [])"

subsection \<open>Package webdav\<close>

text \<open>
  Modelled from the spec: \<^verbatim>\<open>webdav.IsWebdavRequest\<close>, \<^verbatim>\<open>webdav.Exception\<close>,
  \<^verbatim>\<open>webdav.Marshal\<close> and \<^verbatim>\<open>webdav.HandleWebdavError\<close> belong to this repository but
  are not among its sources here. The spec says: a request is a WebDAV operation when
  its method is one of the WebDAV verbs or a header that distinguishes WebDAV clients
  is present (it names neither, so both tables are parameters); the fault carries the
  code for permission denied and a message and is serialised as a WebDAV XML fault;
  when serialisation fails the generic plain status text is written instead. The spec
  does not name the content type of the fault, so none is modelled.
\<close>

record WebdavShape =
  webdav_verbs :: "string list"
  webdav_headers :: "string list"

definition IsWebdavRequest :: "WebdavShape \<Rightarrow> Request \<Rightarrow> bool" where
  "IsWebdavRequest shape req =
     (Method req \<in> set (webdav_verbs shape) \<or>
      list_ex (\<lambda>h. Values (Header req) h \<noteq> []) (webdav_headers shape))"

datatype ExceptionCode = SabredavPermissionDenied

record Exception =
  Code :: ExceptionCode
  Message :: string

fun sabreException :: "ExceptionCode \<Rightarrow> string" where
  "sabreException SabredavPermissionDenied = ''permission-denied''"

definition Marshal :: "Exception \<Rightarrow> string + Payload" where
  "Marshal e = Inr (WebdavFault (sabreException (Code e)) (Message e))"

definition HandleWebdavError :: "ResponseWriter \<Rightarrow> string + Payload \<Rightarrow> ResponseWriter" where
  "HandleWebdavError rw res =
     (case res of
        Inl err \<Rightarrow> Write (Plain (StatusText StatusUnauthorized)) rw
      | Inr b \<Rightarrow> Write b rw)"

subsection \<open>Configuration and the package-level list of challenges\<close>

text \<open>
  \<^verbatim>\<open>Options\<close> as far as this file reads it. \<^verbatim>\<open>CredentialsByUserAgent\<close> is a Go
  map from a user agent to a challenge.
\<close>

record Options =
  OIDCIss :: string
  EnableBasicAuth :: bool
  CredentialsByUserAgent :: "string \<rightharpoonup> string"

text \<open>
  The package-level variable that is assigned after its declaration. It starts as the
  nil slice.
\<close>

record Globals =
  SupportedAuthStrategies :: "string list"

definition initial :: Globals where
  "initial = \<lparr>SupportedAuthStrategies = []\<rparr>"

definition configureSupportedChallenges :: "Options \<Rightarrow> Globals \<Rightarrow> Globals" where
  "configureSupportedChallenges options g =
     (let g1 = (if OIDCIss options \<noteq> []
                then g\<lparr>SupportedAuthStrategies := SupportedAuthStrategies g @ [''bearer'']\<rparr>
                else g)
      in if EnableBasicAuth options
         then g1\<lparr>SupportedAuthStrategies := SupportedAuthStrategies g1 @ [''basic'']\<rparr>
         else g1)"

subsection \<open>Path classification\<close>

definition isOIDCTokenAuth :: "Request \<Rightarrow> bool" where
  "isOIDCTokenAuth req = (URL_Path req = ''/konnect/v1/token'')"

text \<open>
  The condition under which the handler passes the request on at once
  (\<^verbatim>\<open>The authentication for this request is handled by the IdP\<close>).
\<close>

definition handledByIdP :: "Request \<Rightarrow> bool" where
  "handledByIdP req =
     (isOIDCTokenAuth req \<or>
      URL_Path req = ''/'' \<or>
      HasPrefix (URL_Path req) ''/.well-known'' \<or>
      URL_Path req = ''/login'' \<or>
      HasPrefix (URL_Path req) ''/js'' \<or>
      HasPrefix (URL_Path req) ''/themes'' \<or>
      HasPrefix (URL_Path req) ''/signin'' \<or>
      HasPrefix (URL_Path req) ''/konnect'' \<or>
      URL_Path req = ''/config.json'' \<or>
      URL_Path req = ''/oidc-callback.html'' \<or>
      URL_Path req = ''/oidc-callback'' \<or>
      URL_Path req = ''/settings.js'')"

fun anyPrefix :: "string list \<Rightarrow> string \<Rightarrow> bool" where
  "anyPrefix [] p = False"
| "anyPrefix (pp # pps) p = (if HasPrefix p pp then True else anyPrefix pps p)"

definition isPublicPath :: "string \<Rightarrow> bool" where
  "isPublicPath p = anyPrefix publicPaths p"

subsection \<open>Challenges and the user agent lock\<close>

text \<open>
  The value \<^verbatim>\<open>fmt.Sprintf("%v realm=\"%s\", charset=\"UTF-8\"", strings.Title(s), host)\<close>.
\<close>

definition challenge :: "string \<Rightarrow> string \<Rightarrow> string" where
  "challenge s host =
     Title s @ '' realm='' @ [CHR 0x22] @ host @ [CHR 0x22] @ '', charset='' @ [CHR 0x22] @
     ''UTF-8'' @ [CHR 0x22]"

definition removeSuperfluousAuthenticate :: "ResponseWriter \<Rightarrow> ResponseWriter" where
  "removeSuperfluousAuthenticate rw = rw\<lparr>header := Del WwwAuthenticate (header rw)\<rparr>"

definition addChallenge :: "string \<Rightarrow> string \<Rightarrow> ResponseWriter \<Rightarrow> ResponseWriter" where
  "addChallenge s host rw = rw\<lparr>header := Add WwwAuthenticate (challenge s host) (header rw)\<rparr>"

text \<open>
  \<^verbatim>\<open>userAgentLocker\<close>; its fields \<^verbatim>\<open>w\<close> and \<^verbatim>\<open>r\<close> are \<open>lw\<close> and \<open>lr\<close> here.
\<close>

record userAgentLocker =
  lw :: ResponseWriter
  lr :: Request
  locks :: "string \<rightharpoonup> string"
  fallback :: string

text \<open>
  The loop \<^verbatim>\<open>for k, v := range l.locks\<close> that returns at the first key with
  \<^verbatim>\<open>strings.Contains(k, l.r.UserAgent())\<close>. Go does not specify the order in which
  \<^verbatim>\<open>range\<close> visits a map and varies it from one loop to the next, so the order
  of the keys is an argument; a key the map does not hold yields no iteration. The
  result is the value of the first key that passes the test.
\<close>

fun range_locks :: "(string \<rightharpoonup> string) \<Rightarrow> string list \<Rightarrow> string \<Rightarrow> string option" where
  "range_locks m [] ua = None"
| "range_locks m (k # ks) ua =
     (case m k of
        None \<Rightarrow> range_locks m ks ua
      | Some v \<Rightarrow> if Contains k ua then Some v else range_locks m ks ua)"

text \<open>An order in which \<^verbatim>\<open>range\<close> may visit the map: each key once.\<close>

definition key_order :: "(string \<rightharpoonup> string) \<Rightarrow> string list \<Rightarrow> bool" where
  "key_order m ks = (distinct ks \<and> set ks = dom m)"

definition evalRequestURI :: "string list \<Rightarrow> userAgentLocker \<Rightarrow> Regexp \<Rightarrow> ResponseWriter" where
  "evalRequestURI ks l re =
     (if \<not> MatchString re (RequestURI (lr l)) then lw l
      else case range_locks (locks l) ks (UserAgent (lr l)) of
             Some v \<Rightarrow> addChallenge v (Host (lr l)) (removeSuperfluousAuthenticate (lw l))
           | None \<Rightarrow> addChallenge (fallback l) (Host (lr l)) (lw l))"

text \<open>
  \<^verbatim>\<open>userAgentAuthenticateLockIn\<close>: one call of \<^verbatim>\<open>evalRequestURI\<close> for each scope
  pattern, all on the same response writer. \<open>order j\<close> is the key order of the map
  loop in the call for pattern \<open>j\<close>.
\<close>

fun lockIn_patterns ::
  "(nat \<Rightarrow> string list) \<Rightarrow> nat \<Rightarrow> Regexp list \<Rightarrow> userAgentLocker \<Rightarrow> ResponseWriter" where
  "lockIn_patterns order j [] u = lw u"
| "lockIn_patterns order j (re # res) u =
     lockIn_patterns order (Suc j) res (u\<lparr>lw := evalRequestURI (order j) u re\<rparr>)"

definition userAgentAuthenticateLockIn ::
  "(nat \<Rightarrow> string list) \<Rightarrow> ResponseWriter \<Rightarrow> Request \<Rightarrow> (string \<rightharpoonup> string) \<Rightarrow> string
     \<Rightarrow> ResponseWriter" where
  "userAgentAuthenticateLockIn order rw req m fb =
     lockIn_patterns order 0 ProxyWwwAuthenticate
       \<lparr>lw = rw, lr = req, locks = m, fallback = fb\<rparr>"

subsection \<open>The middleware\<close>

text \<open>
  An Authenticator returns the request, possibly augmented, and whether it accepted
  it. \<^verbatim>\<open>next.ServeHTTP(w, r)\<close> is a function on the response writer.
\<close>

type_synonym Authenticator = "Request \<Rightarrow> Request \<times> bool"

type_synonym Handler = "ResponseWriter \<Rightarrow> Request \<Rightarrow> ResponseWriter"

text \<open>
  The loop \<^verbatim>\<open>for _, a := range auths\<close>: the request of the first Authenticator that
  accepts, with the indices of the Authenticators called, in the order of the calls.
\<close>

fun range_auths :: "nat \<Rightarrow> Authenticator list \<Rightarrow> Request \<Rightarrow> Request option \<times> nat list" where
  "range_auths i [] req = (None, [])"
| "range_auths i (a # as) req =
     (case a req of
        (req', ok) \<Rightarrow>
          if ok then (Some req', [i])
          else (case range_auths (Suc i) as req of (res, called) \<Rightarrow> (res, i # called)))"

text \<open>
  The loop \<^verbatim>\<open>for _, s := range SupportedAuthStrategies\<close>; \<open>order i j\<close> is the key
  order of the map loop run for strategy \<open>i\<close> and scope pattern \<open>j\<close>.
\<close>

fun range_strategies ::
  "(nat \<Rightarrow> nat \<Rightarrow> string list) \<Rightarrow> nat \<Rightarrow> string list \<Rightarrow> (string \<rightharpoonup> string) \<Rightarrow> Request
     \<Rightarrow> ResponseWriter \<Rightarrow> ResponseWriter" where
  "range_strategies order i [] m req rw = rw"
| "range_strategies order i (s # ss) m req rw =
     range_strategies order (Suc i) ss m req (userAgentAuthenticateLockIn (order i) rw req m s)"

text \<open>
  What one call of the handler leaves behind: the response writer, the Authenticators
  it called, and the package-level variables.
\<close>

record Outcome =
  response :: ResponseWriter
  called :: "nat list"
  globals :: Globals

definition ServeHTTP ::
  "Authenticator list \<Rightarrow> Options \<Rightarrow> WebdavShape \<Rightarrow> (nat \<Rightarrow> nat \<Rightarrow> string list) \<Rightarrow> Handler
     \<Rightarrow> Globals \<Rightarrow> ResponseWriter \<Rightarrow> Request \<Rightarrow> Outcome" where
  "ServeHTTP auths options shape order nxt g rw req =
     (if handledByIdP req then \<lparr>response = nxt rw req, called = [], globals = g\<rparr>
      else
        case range_auths 0 auths req of
          (Some req', cs) \<Rightarrow> \<lparr>response = nxt rw req', called = cs, globals = g\<rparr>
        | (None, cs) \<Rightarrow>
            let rw1 = (if \<not> isPublicPath (URL_Path req)
                       then range_strategies order 0 (SupportedAuthStrategies g)
                              (CredentialsByUserAgent options) req rw
                       else rw);
                rw2 = WriteHeader StatusUnauthorized rw1;
                rw3 = (if IsWebdavRequest shape req
                       then HandleWebdavError rw2
                              (Marshal \<lparr>Code = SabredavPermissionDenied,
                                        Message = ''Authentication error''\<rparr>)
                       else rw2)
            in \<lparr>response = rw3, called = cs, globals = g\<rparr>)"

text \<open>
  \<^verbatim>\<open>Authentication(auths, opts...)\<close>: it configures the challenges, then returns the
  handler.
\<close>

definition Authentication ::
  "Authenticator list \<Rightarrow> Options \<Rightarrow> WebdavShape \<Rightarrow> Globals
     \<Rightarrow> Globals \<times> ((nat \<Rightarrow> nat \<Rightarrow> string list) \<Rightarrow> Handler \<Rightarrow> Globals \<Rightarrow> ResponseWriter
                    \<Rightarrow> Request \<Rightarrow> Outcome)" where
  "Authentication auths options shape g =
     (configureSupportedChallenges options g, ServeHTTP auths options shape)"

subsection \<open>Sample requests and configurations\<close>

text \<open>Concrete inputs on which the theorems below are evaluated.\<close>

definition new_writer :: ResponseWriter where
  "new_writer = \<lparr>header = Map.empty, status = None, sent = Map.empty, body = []\<rparr>"

definition request :: "string \<Rightarrow> string \<Rightarrow> string \<Rightarrow> Request" where
  "request verb p ua =
     \<lparr>Method = verb, URL_Path = p, RequestURI = p, Host = ''cloud.example.org'',
      Header = [''User-Agent'' \<mapsto> [ua]], Identity = []\<rparr>"

definition with_locks :: "(string \<rightharpoonup> string) \<Rightarrow> Options" where
  "with_locks m =
     \<lparr>OIDCIss = ''https://idp.example.org'', EnableBasicAuth = True,
      CredentialsByUserAgent = m\<rparr>"

definition no_schemes :: "(string \<rightharpoonup> string) \<Rightarrow> Options" where
  "no_schemes m = \<lparr>OIDCIss = [], EnableBasicAuth = False, CredentialsByUserAgent = m\<rparr>"

definition no_locks :: "string \<rightharpoonup> string" where
  "no_locks = Map.empty"

definition legacy_lock :: "string \<rightharpoonup> string" where
  "legacy_lock = [''LegacySyncClient'' \<mapsto> ''basic'']"

definition two_locks :: "string \<rightharpoonup> string" where
  "two_locks = [''mirall-old'' \<mapsto> ''basic'', ''mirall-new'' \<mapsto> ''bearer'']"

definition bearer_basic :: Globals where
  "bearer_basic = \<lparr>SupportedAuthStrategies = [''bearer'', ''basic'']\<rparr>"

definition dav_methods :: WebdavShape where
  "dav_methods =
     \<lparr>webdav_verbs = [''PROPFIND'', ''PROPPATCH'', ''MKCOL'', ''COPY'', ''MOVE'', ''LOCK'', ''UNLOCK''],
      webdav_headers = []\<rparr>"

definition always :: "string list \<Rightarrow> nat \<Rightarrow> nat \<Rightarrow> string list" where
  "always ks i j = ks"

definition echo :: Handler where
  "echo rw req = Write (Plain (URL_Path req @ concat (Identity req))) rw"

definition accept_as :: "string \<Rightarrow> Authenticator" where
  "accept_as user req = (req\<lparr>Identity := [user]\<rparr>, True)"

definition decline :: Authenticator where
  "decline req = (req, False)"

definition locker :: "Request \<Rightarrow> (string \<rightharpoonup> string) \<Rightarrow> string \<Rightarrow> userAgentLocker" where
  "locker req m fb = \<lparr>lw = new_writer, lr = req, locks = m, fallback = fb\<rparr>"

section \<open>Properties\<close>

subsection \<open>Strings\<close>

lemma HasPrefix_take: "HasPrefix s p \<Longrightarrow> take (length p) s = p"
  by (induction s p rule: HasPrefix.induct) auto

lemma HasPrefix_append: "HasPrefix s p = (\<exists>t. s = p @ t)"
  by (induction s p rule: HasPrefix.induct) auto

lemma Contains_empty: "Contains k []"
  by (induction k) auto

text \<open>\<open>Contains s u\<close> is: \<open>u\<close> is a contiguous part of \<open>s\<close>.\<close>

lemma Contains_decomp: "Contains s u = (\<exists>a b. s = a @ u @ b)"
proof (induction s)
  case Nil
  then show ?case by auto
next
  case (Cons c s)
  show ?case
  proof
    assume "Contains (c # s) u"
    then consider "HasPrefix (c # s) u" | "Contains s u" by auto
    then show "\<exists>a b. c # s = a @ u @ b"
    proof cases
      case 1
      then obtain t where "c # s = u @ t" by (auto simp: HasPrefix_append)
      then have "c # s = [] @ u @ t" by simp
      then show ?thesis by blast
    next
      case 2
      then obtain a b where "s = a @ u @ b" using Cons.IH by auto
      then have "c # s = (c # a) @ u @ b" by simp
      then show ?thesis by blast
    qed
  next
    assume "\<exists>a b. c # s = a @ u @ b"
    then obtain a b where ab: "c # s = a @ u @ b" by auto
    show "Contains (c # s) u"
    proof (cases a)
      case Nil
      then have "HasPrefix (c # s) u" using ab by (auto simp: HasPrefix_append)
      then show ?thesis by simp
    next
      case (Cons x a')
      then have "s = a' @ u @ b" using ab by simp
      then have "Contains s u" using Cons.IH by auto
      then show ?thesis by simp
    qed
  qed
qed

subsection \<open>The loop over the Authenticators\<close>

lemma range_auths_all_fail:
  "\<forall>a\<in>set as. \<not> snd (a req) \<Longrightarrow> range_auths i as req = (None, [i..<i + length as])"
proof (induction as arbitrary: i)
  case Nil
  then show ?case by simp
next
  case (Cons a as)
  then have ih: "range_auths (Suc i) as req = (None, [Suc i..<Suc i + length as])" by simp
  have no: "\<not> snd (a req)" using Cons.prems by simp
  have idx: "[i..<i + length (a # as)] = i # [Suc i..<Suc i + length as]"
    by (subst upt_rec) (simp del: upt_Suc)
  show ?case unfolding idx using ih no by (cases "a req") simp
qed

lemma range_auths_first:
  "\<forall>b\<in>set pre. \<not> snd (b req) \<Longrightarrow> a req = (req', True) \<Longrightarrow>
   range_auths i (pre @ a # post) req = (Some req', [i..<Suc (i + length pre)])"
proof (induction pre arbitrary: i)
  case Nil
  then show ?case by simp
next
  case (Cons b pre)
  then have ih: "range_auths (Suc i) (pre @ a # post) req =
                 (Some req', [Suc i..<Suc (Suc i + length pre)])"
    by simp
  have no: "\<not> snd (b req)" using Cons.prems by simp
  have idx: "[i..<Suc (i + length (b # pre))] = i # [Suc i..<Suc (Suc i + length pre)]"
    by (subst upt_rec) (simp del: upt_Suc)
  show ?case unfolding idx using ih no by (cases "b req") simp
qed

subsection \<open>The loop over the lock map\<close>

lemma range_locks_None:
  "(\<And>k v. m k = Some v \<Longrightarrow> \<not> Contains k ua) \<Longrightarrow> range_locks m ks ua = None"
  by (induction ks) (auto split: option.splits)

lemma range_locks_Some:
  "range_locks m ks ua = Some v \<Longrightarrow> \<exists>k\<in>set ks. m k = Some v \<and> Contains k ua"
  by (induction ks) (auto split: option.splits if_splits)

lemma range_locks_hit:
  "k \<in> set ks \<Longrightarrow> m k = Some v \<Longrightarrow> Contains k ua \<Longrightarrow> \<exists>v'. range_locks m ks ua = Some v'"
  by (induction ks) (auto split: option.splits)

lemma range_locks_first:
  "\<forall>k'\<in>set pre. \<not> Contains k' ua \<Longrightarrow> m k = Some v \<Longrightarrow> Contains k ua \<Longrightarrow>
   range_locks m (pre @ k # post) ua = Some v"
  by (induction pre) (auto split: option.splits)

subsection \<open>The loop over the supported strategies\<close>

lemma lockIn_single:
  "userAgentAuthenticateLockIn order rw req m fb =
   evalRequestURI (order 0) \<lparr>lw = rw, lr = req, locks = m, fallback = fb\<rparr> ocs_cloud"
  by (simp add: userAgentAuthenticateLockIn_def ProxyWwwAuthenticate_def)

lemma addChallenge_header:
  "addChallenge s h rw =
   rw\<lparr>header := (header rw)(WwwAuthenticate \<mapsto> Values (header rw) WwwAuthenticate @ [challenge s h])\<rparr>"
  by (simp add: addChallenge_def Add_def)

lemma locked_header:
  "addChallenge s h (removeSuperfluousAuthenticate rw) =
   rw\<lparr>header := (header rw)(WwwAuthenticate \<mapsto> [challenge s h])\<rparr>"
  by (simp add: addChallenge_def removeSuperfluousAuthenticate_def Add_def Del_def Values_def)

text \<open>Outside the scope patterns the loop leaves the response writer as it is.\<close>

lemma range_strategies_no_scope:
  "\<not> MatchString ocs_cloud (RequestURI req) \<Longrightarrow> range_strategies order i ss m req rw = rw"
  by (induction ss arbitrary: i rw) (simp_all add: lockIn_single evalRequestURI_def)

text \<open>Inside the scope, with no key that contains the user agent: one value per strategy.\<close>

lemma range_strategies_fallback:
  assumes "MatchString ocs_cloud (RequestURI req)"
    and "\<And>k v. m k = Some v \<Longrightarrow> \<not> Contains k (UserAgent req)"
  shows "range_strategies order i ss m req rw =
         (if ss = [] then rw
          else rw\<lparr>header := (header rw)(WwwAuthenticate \<mapsto>
                 Values (header rw) WwwAuthenticate @ map (\<lambda>s. challenge s (Host req)) ss)\<rparr>)"
proof (induction ss arbitrary: i rw)
  case Nil
  then show ?case by simp
next
  case (Cons s ss)
  have none: "\<And>ks. range_locks m ks (UserAgent req) = None"
    using assms(2) by (rule range_locks_None)
  have step: "userAgentAuthenticateLockIn (order i) rw req m s = addChallenge s (Host req) rw"
    using assms(1) by (simp add: lockIn_single evalRequestURI_def none)
  show ?case
    by (simp add: step Cons.IH addChallenge_header Values_def)
qed

text \<open>Inside the scope, when every map loop finds a key: the last loop's value alone.\<close>

lemma range_strategies_locked:
  assumes "MatchString ocs_cloud (RequestURI req)"
    and "\<And>i. \<exists>v. range_locks m (order i 0) (UserAgent req) = Some v"
    and "ss \<noteq> []"
  shows "\<exists>k v. m k = Some v \<and> Contains k (UserAgent req) \<and>
           range_strategies order i ss m req rw =
             rw\<lparr>header := (header rw)(WwwAuthenticate \<mapsto> [challenge v (Host req)])\<rparr>"
  using assms(3)
proof (induction ss arbitrary: i rw)
  case Nil
  then show ?case by simp
next
  case (Cons s ss)
  obtain v where v: "range_locks m (order i 0) (UserAgent req) = Some v"
    using assms(2) by blast
  then obtain k where k: "m k = Some v" "Contains k (UserAgent req)"
    using range_locks_Some by blast
  have step: "userAgentAuthenticateLockIn (order i) rw req m s =
              rw\<lparr>header := (header rw)(WwwAuthenticate \<mapsto> [challenge v (Host req)])\<rparr>"
    using assms(1) v by (simp add: lockIn_single evalRequestURI_def locked_header)
  define rw1 where "rw1 = rw\<lparr>header := (header rw)(WwwAuthenticate \<mapsto> [challenge v (Host req)])\<rparr>"
  show ?case
  proof (cases "ss = []")
    case True
    with step have "range_strategies order i (s # ss) m req rw =
          rw\<lparr>header := (header rw)(WwwAuthenticate \<mapsto> [challenge v (Host req)])\<rparr>"
      by simp
    with k show ?thesis by blast
  next
    case False
    from Cons.IH[OF False, of "Suc i" rw1] obtain k' v' where kv:
      "m k' = Some v'" "Contains k' (UserAgent req)"
      "range_strategies order (Suc i) ss m req rw1 =
         rw1\<lparr>header := (header rw1)(WwwAuthenticate \<mapsto> [challenge v' (Host req)])\<rparr>"
      by blast
    have "rw1\<lparr>header := (header rw1)(WwwAuthenticate \<mapsto> [challenge v' (Host req)])\<rparr> =
          rw\<lparr>header := (header rw)(WwwAuthenticate \<mapsto> [challenge v' (Host req)])\<rparr>"
      by (simp add: rw1_def)
    with kv(3) have "range_strategies order i (s # ss) m req rw =
          rw\<lparr>header := (header rw)(WwwAuthenticate \<mapsto> [challenge v' (Host req)])\<rparr>"
      by (simp add: step rw1_def)
    with kv(1,2) show ?thesis by blast
  qed
qed

subsection \<open>Facts about the handler\<close>

lemma key_order_locked:
  assumes "key_order m ks" "m k = Some v" "Contains k ua"
  shows "\<exists>v'. range_locks m ks ua = Some v'"
proof -
  have "k \<in> set ks" using assms(1,2) by (auto simp: key_order_def)
  then show ?thesis using assms(2,3) by (rule range_locks_hit)
qed

lemma range_strategies_keeps:
  "status (range_strategies order i ss m req rw) = status rw \<and>
   body (range_strategies order i ss m req rw) = body rw \<and>
   sent (range_strategies order i ss m req rw) = sent rw"
  by (induction ss arbitrary: i rw)
     (simp_all add: lockIn_single evalRequestURI_def addChallenge_def
        removeSuperfluousAuthenticate_def split: option.splits)

text \<open>A public path is never one of the paths handled by the IdP: the first three
  characters already differ.\<close>

lemma public_take3:
  "isPublicPath p \<Longrightarrow> take 3 p = ''/da'' \<or> take 3 p = ''/re'' \<or> take 3 p = ''/oc''"
proof -
  have t: "\<And>q. HasPrefix p q \<Longrightarrow> 3 \<le> length q \<Longrightarrow> take 3 p = take 3 q"
  proof -
    fix q assume "HasPrefix p q" "3 \<le> length q"
    then have "take 3 (take (length q) p) = take 3 q" by (simp add: HasPrefix_take)
    then show "take 3 p = take 3 q" using \<open>3 \<le> length q\<close> by (simp add: min_def)
  qed
  assume "isPublicPath p"
  then consider "HasPrefix p ''/dav/public-files/''"
    | "HasPrefix p ''/remote.php/dav/public-files/''"
    | "HasPrefix p ''/remote.php/ocs/apps/files_sharing/api/v1/tokeninfo/unprotected''"
    | "HasPrefix p ''/ocs/v1.php/cloud/capabilities''"
    | "HasPrefix p ''/data''"
    unfolding isPublicPath_def publicPaths_def by (auto split: if_splits)
  then show ?thesis
  proof cases
    case 1 from t[OF this] show ?thesis by simp
  next
    case 2 from t[OF this] show ?thesis by simp
  next
    case 3 from t[OF this] show ?thesis by simp
  next
    case 4 from t[OF this] show ?thesis by simp
  next
    case 5 from t[OF this] show ?thesis by simp
  qed
qed

lemma idp_take3:
  assumes "handledByIdP req"
  shows "take 3 (URL_Path req) \<in> {''/'', ''/ko'', ''/.w'', ''/lo'', ''/js'', ''/th'', ''/si'',
           ''/co'', ''/oi'', ''/se''}"
proof -
  have t: "\<And>q. HasPrefix (URL_Path req) q \<Longrightarrow> 3 \<le> length q \<Longrightarrow> take 3 (URL_Path req) = take 3 q"
  proof -
    fix q assume "HasPrefix (URL_Path req) q" "3 \<le> length q"
    then have "take 3 (take (length q) (URL_Path req)) = take 3 q" by (simp add: HasPrefix_take)
    then show "take 3 (URL_Path req) = take 3 q" using \<open>3 \<le> length q\<close> by (simp add: min_def)
  qed
  from assms consider "URL_Path req = ''/konnect/v1/token''" | "URL_Path req = ''/''"
    | "HasPrefix (URL_Path req) ''/.well-known''" | "URL_Path req = ''/login''"
    | "HasPrefix (URL_Path req) ''/js''" | "HasPrefix (URL_Path req) ''/themes''"
    | "HasPrefix (URL_Path req) ''/signin''" | "HasPrefix (URL_Path req) ''/konnect''"
    | "URL_Path req = ''/config.json''" | "URL_Path req = ''/oidc-callback.html''"
    | "URL_Path req = ''/oidc-callback''" | "URL_Path req = ''/settings.js''"
    unfolding handledByIdP_def isOIDCTokenAuth_def by blast
  then show ?thesis
  proof cases
    case 1 then show ?thesis by simp
  next
    case 2 then show ?thesis by simp
  next
    case 3 from t[OF this] show ?thesis by simp
  next
    case 4 then show ?thesis by simp
  next
    case 5 from t[OF this] show ?thesis by simp
  next
    case 6 from t[OF this] show ?thesis by simp
  next
    case 7 from t[OF this] show ?thesis by simp
  next
    case 8 from t[OF this] show ?thesis by simp
  next
    case 9 then show ?thesis by simp
  next
    case 10 then show ?thesis by simp
  next
    case 11 then show ?thesis by simp
  next
    case 12 then show ?thesis by simp
  qed
qed

lemma public_not_idp: "isPublicPath (URL_Path req) \<Longrightarrow> \<not> handledByIdP req"
  using public_take3[of "URL_Path req"] idp_take3[of req] by auto

lemma ServeHTTP_idp:
  "handledByIdP req \<Longrightarrow>
   ServeHTTP auths options shape order nxt g rw req = \<lparr>response = nxt rw req, called = [], globals = g\<rparr>"
  by (simp add: ServeHTTP_def)

lemma ServeHTTP_unauthenticated:
  assumes "\<not> handledByIdP req" "\<forall>a\<in>set auths. \<not> snd (a req)"
  shows "ServeHTTP auths options shape order nxt g rw req =
     (let rw1 = (if \<not> isPublicPath (URL_Path req)
                 then range_strategies order 0 (SupportedAuthStrategies g)
                        (CredentialsByUserAgent options) req rw
                 else rw);
          rw2 = WriteHeader StatusUnauthorized rw1;
          rw3 = (if IsWebdavRequest shape req
                 then HandleWebdavError rw2
                        (Marshal \<lparr>Code = SabredavPermissionDenied, Message = ''Authentication error''\<rparr>)
                 else rw2)
      in \<lparr>response = rw3, called = [0..<length auths], globals = g\<rparr>)"
  using assms(1) range_auths_all_fail[OF assms(2), of 0]
  by (simp add: ServeHTTP_def)

subsection \<open>Unfolding the samples\<close>

lemmas scope_defs = ocs_cloud_def MatchString_def runes_def between_def

text \<open>The dot of the scope pattern takes a whole rune, here the two bytes of U+00E9.\<close>

lemma scope_reads_runes:
  "MatchString ocs_cloud (''/ocs/v1'' @ [CHR 0xC3, CHR 0xA9] @ ''php/cloud/user'')"
  "\<not> MatchString ocs_cloud (''/ocs/v1'' @ [CHR 0x0A] @ ''php/cloud/user'')"
  "\<not> MatchString ocs_cloud ''/remote.php/webdav/doc.txt''"
  by (simp_all add: scope_defs)

lemmas sample_defs =
  new_writer_def request_def with_locks_def no_schemes_def no_locks_def legacy_lock_def
  two_locks_def bearer_basic_def dav_methods_def always_def echo_def accept_as_def decline_def
  locker_def

lemmas path_defs =
  handledByIdP_def isOIDCTokenAuth_def isPublicPath_def publicPaths_def

lemmas handler_defs =
  ServeHTTP_def userAgentAuthenticateLockIn_def ProxyWwwAuthenticate_def scope_defs
  evalRequestURI_def UserAgent_def Get_def Values_def addChallenge_def
  removeSuperfluousAuthenticate_def Add_def Del_def WwwAuthenticate_def WriteHeader_def
  Write_def StatusUnauthorized_def IsWebdavRequest_def HandleWebdavError_def Marshal_def

lemma Title_samples: "Title ''bearer'' = ''Bearer''" "Title ''basic'' = ''Basic''"
  by (simp_all add: Title_def isSeparator_def ToTitle_def)

text \<open>What an unauthenticated request gets.\<close>

lemma unauthenticated_response:
  assumes "\<not> handledByIdP req" "\<forall>a\<in>set auths. \<not> snd (a req)" "status rw = None"
  shows "status (response (ServeHTTP auths options shape order nxt g rw req)) = Some 401"
    and "sent (response (ServeHTTP auths options shape order nxt g rw req)) =
         header (if \<not> isPublicPath (URL_Path req)
                 then range_strategies order 0 (SupportedAuthStrategies g)
                        (CredentialsByUserAgent options) req rw
                 else rw)"
    and "body (response (ServeHTTP auths options shape order nxt g rw req)) =
         body rw @ (if IsWebdavRequest shape req
                    then [WebdavFault ''permission-denied'' ''Authentication error'']
                    else [])"
  using assms(3) range_strategies_keeps[of order 0 "SupportedAuthStrategies g"
      "CredentialsByUserAgent options" req rw]
  by (simp_all add: ServeHTTP_unauthenticated[OF assms(1,2)] Let_def WriteHeader_def Write_def
      StatusUnauthorized_def HandleWebdavError_def Marshal_def)

lemma challenges_differ: "challenge ''bearer'' h \<noteq> challenge ''basic'' h"
  by (simp add: challenge_def Title_samples)

lemma legacy_order: "key_order legacy_lock [''LegacySyncClient'']"
  by (simp add: key_order_def legacy_lock_def)

lemma all_locked:
  assumes "\<forall>i j. key_order m (order i j)" "m k = Some v" "Contains k ua"
  shows "\<exists>v'. range_locks m (order i 0) ua = Some v'"
  using assms key_order_locked by blast

lemma two_locks_orders:
  "key_order two_locks [''mirall-old'', ''mirall-new'']"
  "key_order two_locks [''mirall-new'', ''mirall-old'']"
  by (auto simp: key_order_def two_locks_def)

lemma called_bypass_or_loop:
  "called (ServeHTTP auths options shape order nxt g rw req) =
     (if handledByIdP req then [] else snd (range_auths 0 auths req))"
  by (simp add: ServeHTTP_def Let_def split: prod.splits option.splits)

lemma range_auths_indices:
  "set (snd (range_auths k as req)) \<subseteq> {k..<k + length as}"
proof (induction as arbitrary: k)
  case Nil
  then show ?case by simp
next
  case (Cons a as)
  have "set (snd (range_auths (Suc k) as req)) \<subseteq> {Suc k..<Suc k + length as}"
    by (rule Cons.IH)
  then show ?case
    by (cases "a req"; cases "range_auths (Suc k) as req") auto
qed

lemma ServeHTTP_first_accept:
  assumes "\<not> handledByIdP req"
    and "\<forall>b\<in>set pre. \<not> snd (b req)"
    and "a req = (req', True)"
  shows "ServeHTTP (pre @ a # post) options shape order nxt g rw req =
           \<lparr>response = nxt rw req', called = [0..<Suc (length pre)], globals = g\<rparr>"
  using assms(1) range_auths_first[where pre = pre and req = req and a = a and req' = req'
      and i = 0 and post = post, OF assms(2,3)]
  by (simp add: ServeHTTP_def)

subsection \<open>Claims about requests that are passed on\<close>

text \<open>
  Claim C4. A request whose path is one of those the identity provider handles (for
  instance \<^verbatim>\<open>/login\<close>, the \<^verbatim>\<open>/.well-known\<close> and \<^verbatim>\<open>/signin\<close> prefixes,
  \<^verbatim>\<open>/oidc-callback\<close>, \<^verbatim>\<open>/settings.js\<close>) gets exactly the response of the downstream
  handler on the unmodified request, and no Authenticator is called.
\<close>

theorem C4_bypass_passthrough:
  "(handledByIdP req \<longrightarrow>
      ServeHTTP auths options shape order nxt g rw req =
        \<lparr>response = nxt rw req, called = [], globals = g\<rparr>) \<and>
   (URL_Path req = ''/login'' \<or> HasPrefix (URL_Path req) ''/.well-known'' \<or>
    HasPrefix (URL_Path req) ''/signin'' \<or> URL_Path req = ''/oidc-callback'' \<or>
    URL_Path req = ''/settings.js'' \<longrightarrow> handledByIdP req)"
proof
  show "handledByIdP req \<longrightarrow>
      ServeHTTP auths options shape order nxt g rw req =
        \<lparr>response = nxt rw req, called = [], globals = g\<rparr>"
    by (simp add: ServeHTTP_idp)
next
  show "URL_Path req = ''/login'' \<or> HasPrefix (URL_Path req) ''/.well-known'' \<or>
    HasPrefix (URL_Path req) ''/signin'' \<or> URL_Path req = ''/oidc-callback'' \<or>
    URL_Path req = ''/settings.js'' \<longrightarrow> handledByIdP req"
    unfolding handledByIdP_def by blast
qed

text \<open>The discovery document of the spec's scenario, with an Authenticator that would accept.\<close>

theorem C4_bypass_passthrough_witness:
  "handledByIdP (request ''GET'' ''/.well-known/openid-configuration'' ''curl/8.0'') \<and>
   ServeHTTP [accept_as ''alice''] (with_locks no_locks) dav_methods (always []) echo
       bearer_basic new_writer (request ''GET'' ''/.well-known/openid-configuration'' ''curl/8.0'') =
     \<lparr>response = echo new_writer (request ''GET'' ''/.well-known/openid-configuration'' ''curl/8.0''),
      called = [], globals = bearer_basic\<rparr>"
proof -
  have h: "handledByIdP (request ''GET'' ''/.well-known/openid-configuration'' ''curl/8.0'')"
    by (simp add: handledByIdP_def request_def)
  from C4_bypass_passthrough[of "request ''GET'' ''/.well-known/openid-configuration'' ''curl/8.0''"
      "[accept_as ''alice'']" "with_locks no_locks" dav_methods "always []" echo bearer_basic new_writer] h
  show ?thesis by blast
qed

text \<open>
  Claim C5, as amended. A request to the exact path \<^verbatim>\<open>/konnect/v1/token\<close> satisfies
  \<^verbatim>\<open>isOIDCTokenAuth\<close> and is passed to the downstream handler unmodified, whatever
  the configuration and the credentials; no Authenticator is called (the client
  authentication of the token endpoint is left to the identity provider).
\<close>

theorem C5_token_endpoint_forwarded:
  "URL_Path req = ''/konnect/v1/token'' \<Longrightarrow>
   isOIDCTokenAuth req \<and>
   ServeHTTP auths options shape order nxt g rw req =
     \<lparr>response = nxt rw req, called = [], globals = g\<rparr>"
  by (simp add: ServeHTTP_idp handledByIdP_def isOIDCTokenAuth_def)

theorem C5_token_endpoint_forwarded_witness:
  "URL_Path (request ''POST'' ''/konnect/v1/token'' ''curl/8.0'') = ''/konnect/v1/token'' \<and>
   isOIDCTokenAuth (request ''POST'' ''/konnect/v1/token'' ''curl/8.0'') \<and>
   ServeHTTP [accept_as ''client''] (no_schemes no_locks) dav_methods (always []) echo initial
       new_writer (request ''POST'' ''/konnect/v1/token'' ''curl/8.0'') =
     \<lparr>response = echo new_writer (request ''POST'' ''/konnect/v1/token'' ''curl/8.0''),
      called = [], globals = initial\<rparr>"
proof -
  have h: "URL_Path (request ''POST'' ''/konnect/v1/token'' ''curl/8.0'') = ''/konnect/v1/token''"
    by (simp add: request_def)
  from C5_token_endpoint_forwarded[OF h, of "[accept_as ''client'']" "no_schemes no_locks"
      dav_methods "always []" echo initial new_writer] h
  show ?thesis by blast
qed

text \<open>
  Claim C5 as stated says that the Basic Authenticator is called and succeeds. On the
  token endpoint an Authenticator that would accept is not called, and the downstream
  handler gets the request without the identity that Authenticator would attach.
\<close>

theorem C5_counterexample:
  "URL_Path (request ''POST'' ''/konnect/v1/token'' ''curl/8.0'') = ''/konnect/v1/token'' \<and>
   snd (accept_as ''client'' (request ''POST'' ''/konnect/v1/token'' ''curl/8.0'')) \<and>
   called (ServeHTTP [accept_as ''client''] (no_schemes no_locks) dav_methods (always []) echo
             initial new_writer (request ''POST'' ''/konnect/v1/token'' ''curl/8.0'')) = [] \<and>
   response (ServeHTTP [accept_as ''client''] (no_schemes no_locks) dav_methods (always []) echo
             initial new_writer (request ''POST'' ''/konnect/v1/token'' ''curl/8.0'')) =
     echo new_writer (request ''POST'' ''/konnect/v1/token'' ''curl/8.0'') \<and>
   echo new_writer (request ''POST'' ''/konnect/v1/token'' ''curl/8.0'') \<noteq>
     echo new_writer (fst (accept_as ''client'' (request ''POST'' ''/konnect/v1/token'' ''curl/8.0'')))"
  by (simp add: ServeHTTP_def path_defs sample_defs Write_def WriteHeader_def)

text \<open>
  Claim C3. Whenever an Authenticator that the handler calls returns \<open>ok = true\<close>,
  the response is that of the downstream handler on the request returned by the first
  Authenticator, in the configured order, that accepts; the Authenticators are called
  in the configured order up to that one, and none after it, even if a later one would
  accept as well. The second part states the same from the Authenticators' answers, for
  a request that the identity provider does not handle (on the paths it handles no
  Authenticator is called at all, which is claim C4).
\<close>

theorem C3_first_success_wins:
  "((\<exists>i\<in>set (called (ServeHTTP auths options shape order nxt g rw req)). snd ((auths ! i) req)) \<longrightarrow>
      (\<exists>pre a post req'.
         auths = pre @ a # post \<and> (\<forall>b\<in>set pre. \<not> snd (b req)) \<and> a req = (req', True) \<and>
         ServeHTTP auths options shape order nxt g rw req =
           \<lparr>response = nxt rw req', called = [0..<Suc (length pre)], globals = g\<rparr>)) \<and>
   (\<not> handledByIdP req \<and> auths = pre0 @ a0 # post0 \<and> (\<forall>b\<in>set pre0. \<not> snd (b req)) \<and>
    a0 req = (req0, True) \<longrightarrow>
      ServeHTTP auths options shape order nxt g rw req =
        \<lparr>response = nxt rw req0, called = [0..<Suc (length pre0)], globals = g\<rparr>)"
proof (intro conjI impI)
  assume "\<exists>i\<in>set (called (ServeHTTP auths options shape order nxt g rw req)). snd ((auths ! i) req)"
  then obtain i where i: "i \<in> set (called (ServeHTTP auths options shape order nxt g rw req))"
    and ok: "snd ((auths ! i) req)"
    by blast
  have n: "\<not> handledByIdP req"
    using i by (auto simp: called_bypass_or_loop split: if_splits)
  then have "i \<in> set (snd (range_auths 0 auths req))"
    using i by (simp add: called_bypass_or_loop)
  then have "i < length auths"
    using range_auths_indices[of 0 auths req] by auto
  then have "\<exists>a\<in>set auths. snd (a req)"
    using ok nth_mem by blast
  then obtain pre a post where sp: "auths = pre @ a # post" "snd (a req)"
    "\<forall>b\<in>set pre. \<not> snd (b req)"
    using split_list_first_prop[of auths "\<lambda>a. snd (a req)"] by blast
  then have a: "a req = (fst (a req), True)" by (simp add: prod_eq_iff)
  have "ServeHTTP auths options shape order nxt g rw req =
          \<lparr>response = nxt rw (fst (a req)), called = [0..<Suc (length pre)], globals = g\<rparr>"
    unfolding sp(1) using n sp(3) a by (rule ServeHTTP_first_accept)
  with sp(1,3) a show "\<exists>pre a post req'.
         auths = pre @ a # post \<and> (\<forall>b\<in>set pre. \<not> snd (b req)) \<and> a req = (req', True) \<and>
         ServeHTTP auths options shape order nxt g rw req =
           \<lparr>response = nxt rw req', called = [0..<Suc (length pre)], globals = g\<rparr>"
    by blast
next
  assume h: "\<not> handledByIdP req \<and> auths = pre0 @ a0 # post0 \<and> (\<forall>b\<in>set pre0. \<not> snd (b req)) \<and>
    a0 req = (req0, True)"
  then have "ServeHTTP (pre0 @ a0 # post0) options shape order nxt g rw req =
        \<lparr>response = nxt rw req0, called = [0..<Suc (length pre0)], globals = g\<rparr>"
    by (intro ServeHTTP_first_accept) simp_all
  with h show "ServeHTTP auths options shape order nxt g rw req =
        \<lparr>response = nxt rw req0, called = [0..<Suc (length pre0)], globals = g\<rparr>"
    by simp
qed

theorem C3_first_success_wins_witness:
  "\<not> handledByIdP (request ''GET'' ''/remote.php/webdav/doc.txt'' ''curl/8.0'') \<and>
   \<not> snd (decline (request ''GET'' ''/remote.php/webdav/doc.txt'' ''curl/8.0'')) \<and>
   accept_as ''alice'' (request ''GET'' ''/remote.php/webdav/doc.txt'' ''curl/8.0'') =
     ((request ''GET'' ''/remote.php/webdav/doc.txt'' ''curl/8.0'')\<lparr>Identity := [''alice'']\<rparr>, True) \<and>
   snd (accept_as ''bob'' (request ''GET'' ''/remote.php/webdav/doc.txt'' ''curl/8.0'')) \<and>
   ServeHTTP [decline, accept_as ''alice'', accept_as ''bob''] (with_locks no_locks) dav_methods
       (always []) echo bearer_basic new_writer
       (request ''GET'' ''/remote.php/webdav/doc.txt'' ''curl/8.0'') =
     \<lparr>response = echo new_writer
         ((request ''GET'' ''/remote.php/webdav/doc.txt'' ''curl/8.0'')\<lparr>Identity := [''alice'']\<rparr>),
      called = [0, 1], globals = bearer_basic\<rparr> \<and>
   snd (([decline, accept_as ''alice'', accept_as ''bob''] ! 1)
          (request ''GET'' ''/remote.php/webdav/doc.txt'' ''curl/8.0''))"
proof -
  let ?r = "request ''GET'' ''/remote.php/webdav/doc.txt'' ''curl/8.0''"
  have h1: "\<not> handledByIdP ?r" by (simp add: path_defs request_def)
  have h2: "\<forall>b\<in>set [decline]. \<not> snd (b ?r)" by (simp add: decline_def)
  have h3: "accept_as ''alice'' ?r = (?r\<lparr>Identity := [''alice'']\<rparr>, True)"
    by (simp add: accept_as_def)
  have h4: "snd (accept_as ''bob'' ?r)" by (simp add: accept_as_def)
  have l: "[decline, accept_as ''alice'', accept_as ''bob''] =
           [decline] @ accept_as ''alice'' # [accept_as ''bob'']"
    by simp
  from C3_first_success_wins[where req = ?r and ?pre0.0 = "[decline]" and ?a0.0 = "accept_as ''alice''"
      and ?req0.0 = "?r\<lparr>Identity := [''alice'']\<rparr>" and ?post0.0 = "[accept_as ''bob'']"
      and auths = "[decline, accept_as ''alice'', accept_as ''bob'']"
      and options = "with_locks no_locks" and shape = dav_methods and order = "always []"
      and nxt = echo and g = bearer_basic and rw = new_writer] h1 h2 h3 l
  have "ServeHTTP [decline, accept_as ''alice'', accept_as ''bob''] (with_locks no_locks) dav_methods
       (always []) echo bearer_basic new_writer ?r =
     \<lparr>response = echo new_writer (?r\<lparr>Identity := [''alice'']\<rparr>),
      called = [0..<Suc (length [decline])], globals = bearer_basic\<rparr>"
    by blast
  with h1 h2 h3 h4 show ?thesis by simp
qed

subsection \<open>Claims about the configuration\<close>

text \<open>Each call of the constructor appends to the list it finds.\<close>

lemma configure_appends:
  "SupportedAuthStrategies (configureSupportedChallenges options g) =
     SupportedAuthStrategies g @
     (if OIDCIss options \<noteq> [] then [''bearer''] else []) @
     (if EnableBasicAuth options then [''basic''] else [])"
  by (simp add: configureSupportedChallenges_def)

text \<open>
  Claim C9, as amended. Every call of \<^verbatim>\<open>Authentication\<close> appends to the package-level
  list of supported challenges before it returns its handler: \<^verbatim>\<open>bearer\<close> exactly
  when the issuer is not empty, then \<^verbatim>\<open>basic\<close> exactly when Basic is enabled. After
  the first call, from the nil slice, the list holds these and nothing else; nothing in
  the package keeps a later call from appending again. Serving a request leaves the list
  as it found it.
\<close>

theorem C9_challenges_appended_by_each_construction:
  "SupportedAuthStrategies (fst (Authentication auths options shape g0)) =
     SupportedAuthStrategies g0 @
     (if OIDCIss options \<noteq> [] then [''bearer''] else []) @
     (if EnableBasicAuth options then [''basic''] else []) \<and>
   SupportedAuthStrategies (fst (Authentication auths options shape initial)) =
     (if OIDCIss options \<noteq> [] then [''bearer''] else []) @
     (if EnableBasicAuth options then [''basic''] else []) \<and>
   globals (snd (Authentication auths options shape g0) order nxt g rw req) = g"
proof (intro conjI)
  show "SupportedAuthStrategies (fst (Authentication auths options shape g0)) =
     SupportedAuthStrategies g0 @
     (if OIDCIss options \<noteq> [] then [''bearer''] else []) @
     (if EnableBasicAuth options then [''basic''] else [])"
    by (simp add: Authentication_def configure_appends)
next
  show "SupportedAuthStrategies (fst (Authentication auths options shape initial)) =
     (if OIDCIss options \<noteq> [] then [''bearer''] else []) @
     (if EnableBasicAuth options then [''basic''] else [])"
    by (simp add: Authentication_def configure_appends initial_def)
next
  show "globals (snd (Authentication auths options shape g0) order nxt g rw req) = g"
    by (simp add: Authentication_def ServeHTTP_def Let_def split: prod.splits option.splits)
qed

theorem C9_challenges_appended_by_each_construction_witness:
  "SupportedAuthStrategies (fst (Authentication [decline] (with_locks no_locks) dav_methods initial)) =
     [''bearer'', ''basic''] \<and>
   SupportedAuthStrategies (fst (Authentication [decline] (with_locks no_locks) dav_methods
      bearer_basic)) = [''bearer'', ''basic'', ''bearer'', ''basic''] \<and>
   globals (snd (Authentication [decline] (with_locks no_locks) dav_methods initial) (always [])
      echo bearer_basic new_writer (request ''GET'' ''/ocs/v1.php/cloud/user'' ''curl/8.0'')) =
     bearer_basic"
  using C9_challenges_appended_by_each_construction[of "[decline]" "with_locks no_locks" dav_methods
      bearer_basic "always []" echo bearer_basic new_writer
      "request ''GET'' ''/ocs/v1.php/cloud/user'' ''curl/8.0''"]
    C9_challenges_appended_by_each_construction[of "[decline]" "with_locks no_locks" dav_methods
      initial "always []" echo bearer_basic new_writer
      "request ''GET'' ''/ocs/v1.php/cloud/user'' ''curl/8.0''"]
  by (simp add: with_locks_def bearer_basic_def)

text \<open>
  Claim C9 as stated has the list built exactly once, holding each scheme at most once.
  A second construction with the same options appends both schemes again, and the
  handlers then read a list of four.
\<close>

theorem C9_counterexample:
  "OIDCIss (with_locks no_locks) \<noteq> [] \<and>
   EnableBasicAuth (with_locks no_locks) \<and>
   SupportedAuthStrategies
     (fst (Authentication [decline] (with_locks no_locks) dav_methods
        (fst (Authentication [decline] (with_locks no_locks) dav_methods initial)))) =
     [''bearer'', ''basic'', ''bearer'', ''basic'']"
  by (simp add: Authentication_def configure_appends initial_def with_locks_def)

subsection \<open>Claims about the response to an unauthenticated request\<close>

text \<open>
  Claim C6. For a request on a public path that every Authenticator declines, the
  response has status 401 and no \<^verbatim>\<open>Www-Authenticate\<close> header: the middleware adds
  no header to a response that has not been started.
\<close>

theorem C6_public_path_bare_401:
  assumes "isPublicPath (URL_Path req)"
    and "\<forall>a\<in>set auths. \<not> snd (a req)"
    and "status rw = None"
    and "header rw WwwAuthenticate = None"
  shows "status (response (ServeHTTP auths options shape order nxt g rw req)) = Some 401 \<and>
         sent (response (ServeHTTP auths options shape order nxt g rw req)) WwwAuthenticate = None \<and>
         sent (response (ServeHTTP auths options shape order nxt g rw req)) = header rw"
proof -
  have n: "\<not> handledByIdP req" using assms(1) by (rule public_not_idp)
  show ?thesis
    using unauthenticated_response[OF n assms(2,3)] assms(1,4) by simp
qed

text \<open>The public share of the spec's scenario.\<close>

theorem C6_public_path_bare_401_witness:
  "isPublicPath (URL_Path (request ''GET'' ''/dav/public-files/abc'' ''curl/8.0'')) \<and>
   \<not> snd (decline (request ''GET'' ''/dav/public-files/abc'' ''curl/8.0'')) \<and>
   status new_writer = None \<and>
   header new_writer WwwAuthenticate = None \<and>
   status (response (ServeHTTP [decline] (with_locks no_locks) dav_methods (always []) echo
      bearer_basic new_writer (request ''GET'' ''/dav/public-files/abc'' ''curl/8.0''))) = Some 401 \<and>
   sent (response (ServeHTTP [decline] (with_locks no_locks) dav_methods (always []) echo
      bearer_basic new_writer (request ''GET'' ''/dav/public-files/abc'' ''curl/8.0'')))
      WwwAuthenticate = None"
proof -
  let ?r = "request ''GET'' ''/dav/public-files/abc'' ''curl/8.0''"
  have h1: "isPublicPath (URL_Path ?r)" by (simp add: path_defs request_def)
  have h2: "\<forall>a\<in>set [decline]. \<not> snd (a ?r)" by (simp add: decline_def)
  have h3: "status new_writer = None" by (simp add: new_writer_def)
  have h4: "header new_writer WwwAuthenticate = None" by (simp add: new_writer_def)
  from C6_public_path_bare_401[where req = ?r and auths = "[decline]" and rw = new_writer
      and options = "with_locks no_locks" and shape = dav_methods and order = "always []"
      and nxt = echo and g = bearer_basic, OF h1 h2 h3 h4] h1 h2 h3 h4
  show ?thesis by simp
qed

text \<open>
  Claim C7, as amended. For every request that the identity provider does not handle and
  every Authenticator declines, the status is 401; when the request is a WebDAV operation
  the body is the WebDAV fault with code \<^verbatim>\<open>permission-denied\<close> and message
  \<^verbatim>\<open>Authentication error\<close>, and otherwise nothing is written to the body.
\<close>

theorem C7_failure_status_and_body:
  assumes "\<not> handledByIdP req"
    and "\<forall>a\<in>set auths. \<not> snd (a req)"
    and "status rw = None"
  shows "status (response (ServeHTTP auths options shape order nxt g rw req)) = Some 401 \<and>
         (IsWebdavRequest shape req \<longrightarrow>
            body (response (ServeHTTP auths options shape order nxt g rw req)) =
              body rw @ [WebdavFault ''permission-denied'' ''Authentication error'']) \<and>
         (\<not> IsWebdavRequest shape req \<longrightarrow>
            body (response (ServeHTTP auths options shape order nxt g rw req)) = body rw)"
  using unauthenticated_response(1,3)[OF assms] by simp

theorem C7_failure_status_and_body_witness:
  "\<not> handledByIdP (request ''PROPFIND'' ''/remote.php/webdav/doc.txt'' ''LegacySyncClient/1.0'') \<and>
   \<not> snd (decline (request ''PROPFIND'' ''/remote.php/webdav/doc.txt'' ''LegacySyncClient/1.0'')) \<and>
   status new_writer = None \<and>
   IsWebdavRequest dav_methods
     (request ''PROPFIND'' ''/remote.php/webdav/doc.txt'' ''LegacySyncClient/1.0'') \<and>
   status (response (ServeHTTP [decline] (with_locks legacy_lock) dav_methods
      (always [''LegacySyncClient'']) echo bearer_basic new_writer
      (request ''PROPFIND'' ''/remote.php/webdav/doc.txt'' ''LegacySyncClient/1.0''))) = Some 401 \<and>
   body (response (ServeHTTP [decline] (with_locks legacy_lock) dav_methods
      (always [''LegacySyncClient'']) echo bearer_basic new_writer
      (request ''PROPFIND'' ''/remote.php/webdav/doc.txt'' ''LegacySyncClient/1.0''))) =
     [WebdavFault ''permission-denied'' ''Authentication error'']"
proof -
  let ?r = "request ''PROPFIND'' ''/remote.php/webdav/doc.txt'' ''LegacySyncClient/1.0''"
  have h1: "\<not> handledByIdP ?r" by (simp add: path_defs request_def)
  have h2: "\<forall>a\<in>set [decline]. \<not> snd (a ?r)" by (simp add: decline_def)
  have h3: "status new_writer = None" by (simp add: new_writer_def)
  have h4: "IsWebdavRequest dav_methods ?r"
    by (simp add: IsWebdavRequest_def dav_methods_def request_def)
  have h5: "body new_writer = []" by (simp add: new_writer_def)
  from C7_failure_status_and_body[where req = ?r and auths = "[decline]" and rw = new_writer
      and options = "with_locks legacy_lock" and shape = dav_methods
      and order = "always [''LegacySyncClient'']" and nxt = echo and g = bearer_basic,
      OF h1 h2 h3] h1 h2 h3 h4 h5
  show ?thesis by simp
qed

text \<open>
  Claim C7 as stated gives the response to a request that is no WebDAV operation the
  generic status text as its body. The handler writes the status line alone.
\<close>

theorem C7_counterexample:
  "\<not> handledByIdP (request ''GET'' ''/ocs/v1.php/cloud/user'' ''curl/8.0'') \<and>
   \<not> snd (decline (request ''GET'' ''/ocs/v1.php/cloud/user'' ''curl/8.0'')) \<and>
   \<not> IsWebdavRequest dav_methods (request ''GET'' ''/ocs/v1.php/cloud/user'' ''curl/8.0'') \<and>
   status (response (ServeHTTP [decline] (with_locks no_locks) dav_methods (always []) echo
      bearer_basic new_writer (request ''GET'' ''/ocs/v1.php/cloud/user'' ''curl/8.0''))) = Some 401 \<and>
   body (response (ServeHTTP [decline] (with_locks no_locks) dav_methods (always []) echo
      bearer_basic new_writer (request ''GET'' ''/ocs/v1.php/cloud/user'' ''curl/8.0''))) = [] \<and>
   StatusText StatusUnauthorized = ''Unauthorized''"
  by (simp add: handler_defs path_defs sample_defs StatusText_def)

subsection \<open>Claims about the user agent lock\<close>

text \<open>
  What the loop over the lock map does: it stops at the first key it visits that
  contains the request's user agent, and the header then holds the challenge of that
  key's scheme alone; when no key contains the user agent, the challenge of the fallback
  scheme is added.
\<close>

lemma evalRequestURI_first_key:
  assumes "MatchString re (RequestURI (lr l))"
    and "key_order (locks l) ks"
  shows "(\<forall>pre k post v.
            ks = pre @ k # post \<and> (\<forall>k'\<in>set pre. \<not> Contains k' (UserAgent (lr l))) \<and>
            Contains k (UserAgent (lr l)) \<and> locks l k = Some v \<longrightarrow>
            Values (header (evalRequestURI ks l re)) WwwAuthenticate =
              [challenge v (Host (lr l))]) \<and>
         ((\<forall>k\<in>set ks. \<not> Contains k (UserAgent (lr l))) \<longrightarrow>
            Values (header (evalRequestURI ks l re)) WwwAuthenticate =
              Values (header (lw l)) WwwAuthenticate @ [challenge (fallback l) (Host (lr l))])"
proof (intro conjI allI impI)
  fix pre k post v
  assume a: "ks = pre @ k # post \<and> (\<forall>k'\<in>set pre. \<not> Contains k' (UserAgent (lr l))) \<and>
            Contains k (UserAgent (lr l)) \<and> locks l k = Some v"
  then have "range_locks (locks l) ks (UserAgent (lr l)) = Some v"
    by (simp add: range_locks_first)
  then show "Values (header (evalRequestURI ks l re)) WwwAuthenticate = [challenge v (Host (lr l))]"
    using assms(1) by (simp add: evalRequestURI_def locked_header Values_def)
next
  assume "\<forall>k\<in>set ks. \<not> Contains k (UserAgent (lr l))"
  then have "\<And>k v. locks l k = Some v \<Longrightarrow> \<not> Contains k (UserAgent (lr l))"
    using assms(2) by (auto simp: key_order_def)
  then have "range_locks (locks l) ks (UserAgent (lr l)) = None"
    by (rule range_locks_None)
  then show "Values (header (evalRequestURI ks l re)) WwwAuthenticate =
              Values (header (lw l)) WwwAuthenticate @ [challenge (fallback l) (Host (lr l))]"
    using assms(1) by (simp add: evalRequestURI_def addChallenge_header Values_def)
qed

text \<open>
  Claim C2. Within the scope pattern, the first lock key that occurs within the
  request's user agent decides the challenge (the lock is meant to bind a user agent to
  its challenge), and the fallback challenge is emitted only when no key occurs within
  the user agent. The handler calls \<^verbatim>\<open>strings.Contains(k, l.r.UserAgent())\<close>, which
  asks whether the user agent occurs within the key. With the lock
  \<^verbatim>\<open>LegacySyncClient\<close> for Basic and the user agent \<^verbatim>\<open>LegacySyncClient/1.0\<close> the
  key occurs within the user agent and the user agent does not occur within the key:
  \<^verbatim>\<open>evalRequestURI\<close> adds the fallback challenge, and the response of the handler
  carries the Bearer and the Basic challenge where the claim has the Basic one alone.
\<close>

theorem C2_failing_input:
  "MatchString ocs_cloud (RequestURI (request ''GET'' ''/ocs/v1.php/cloud/user'' ''LegacySyncClient/1.0'')) \<and>
   legacy_lock ''LegacySyncClient'' = Some ''basic'' \<and>
   key_order legacy_lock [''LegacySyncClient''] \<and>
   Contains (UserAgent (request ''GET'' ''/ocs/v1.php/cloud/user'' ''LegacySyncClient/1.0''))
     ''LegacySyncClient'' \<and>
   \<not> Contains ''LegacySyncClient''
     (UserAgent (request ''GET'' ''/ocs/v1.php/cloud/user'' ''LegacySyncClient/1.0'')) \<and>
   Values (header (evalRequestURI [''LegacySyncClient'']
       (locker (request ''GET'' ''/ocs/v1.php/cloud/user'' ''LegacySyncClient/1.0'') legacy_lock
          ''bearer'') ocs_cloud))
     WwwAuthenticate = [challenge ''bearer'' ''cloud.example.org''] \<and>
   Values (sent (response (ServeHTTP [decline] (with_locks legacy_lock) dav_methods
       (always [''LegacySyncClient'']) echo bearer_basic new_writer
       (request ''GET'' ''/ocs/v1.php/cloud/user'' ''LegacySyncClient/1.0'')))) WwwAuthenticate =
     [challenge ''bearer'' ''cloud.example.org'', challenge ''basic'' ''cloud.example.org''] \<and>
   challenge ''bearer'' ''cloud.example.org'' \<noteq> challenge ''basic'' ''cloud.example.org''"
  by (simp add: handler_defs path_defs sample_defs key_order_def challenges_differ)

subsection \<open>Claims about the challenge headers\<close>

text \<open>
  Claim C1, as amended. For a request that is neither handled by the identity provider
  nor public and that every Authenticator declines, the status is 401, and the
  \<^verbatim>\<open>Www-Authenticate\<close> values are decided by the scope pattern
  \<^verbatim>\<open>/ocs/v[12].php/cloud/\<close>: a request URI outside the scope gets no value added.
  Inside the scope, for a request on which every lock key occurs within the user agent
  exactly when the user agent occurs within the key (so that the handler's substring
  test and the one of claim C2 give the same answer): when no lock key occurs within the
  user agent, one value per supported scheme is appended in the configured order; when
  a lock key does and at least one scheme is supported, the header holds exactly one
  value, the challenge of the scheme of such a key, and whatever had been staged is
  cleared. Nothing is said of the requests on which the two tests differ.
\<close>

theorem C1_challenge_headers:
  assumes "\<not> handledByIdP req"
    and "\<not> isPublicPath (URL_Path req)"
    and "\<forall>a\<in>set auths. \<not> snd (a req)"
    and "status rw = None"
    and "\<forall>i j. key_order (CredentialsByUserAgent options) (order i j)"
  shows "status (response (ServeHTTP auths options shape order nxt g rw req)) = Some 401 \<and>
    (\<not> MatchString ocs_cloud (RequestURI req) \<longrightarrow>
       sent (response (ServeHTTP auths options shape order nxt g rw req)) = header rw) \<and>
    (MatchString ocs_cloud (RequestURI req) \<and>
     (\<forall>k v. CredentialsByUserAgent options k = Some v \<longrightarrow>
        Contains k (UserAgent req) = Contains (UserAgent req) k) \<and>
     (\<forall>k v. CredentialsByUserAgent options k = Some v \<longrightarrow> \<not> Contains (UserAgent req) k) \<longrightarrow>
       Values (sent (response (ServeHTTP auths options shape order nxt g rw req))) WwwAuthenticate =
         Values (header rw) WwwAuthenticate @
         map (\<lambda>s. challenge s (Host req)) (SupportedAuthStrategies g)) \<and>
    (MatchString ocs_cloud (RequestURI req) \<and>
     (\<forall>k v. CredentialsByUserAgent options k = Some v \<longrightarrow>
        Contains k (UserAgent req) = Contains (UserAgent req) k) \<and>
     (\<exists>k v. CredentialsByUserAgent options k = Some v \<and> Contains (UserAgent req) k) \<and>
     SupportedAuthStrategies g \<noteq> [] \<longrightarrow>
       (\<exists>k v. CredentialsByUserAgent options k = Some v \<and> Contains (UserAgent req) k \<and>
          Values (sent (response (ServeHTTP auths options shape order nxt g rw req))) WwwAuthenticate =
            [challenge v (Host req)]))"
proof -
  let ?m = "CredentialsByUserAgent options"
  let ?ss = "SupportedAuthStrategies g"
  let ?ua = "UserAgent req"
  let ?out = "response (ServeHTTP auths options shape order nxt g rw req)"
  let ?agree = "\<forall>k v. ?m k = Some v \<longrightarrow> Contains k ?ua = Contains ?ua k"
  have st: "status ?out = Some 401"
    using unauthenticated_response(1)[OF assms(1,3,4)] .
  have se: "sent ?out = header (range_strategies order 0 ?ss ?m req rw)"
    using unauthenticated_response(2)[OF assms(1,3,4)] assms(2) by simp
  have a: "\<not> MatchString ocs_cloud (RequestURI req) \<longrightarrow> sent ?out = header rw"
    by (simp add: se range_strategies_no_scope)
  have b: "MatchString ocs_cloud (RequestURI req) \<and> ?agree \<and>
     (\<forall>k v. ?m k = Some v \<longrightarrow> \<not> Contains ?ua k) \<longrightarrow>
       Values (sent ?out) WwwAuthenticate =
         Values (header rw) WwwAuthenticate @ map (\<lambda>s. challenge s (Host req)) ?ss"
  proof
    assume h: "MatchString ocs_cloud (RequestURI req) \<and> ?agree \<and>
     (\<forall>k v. ?m k = Some v \<longrightarrow> \<not> Contains ?ua k)"
    then have none: "\<And>k v. ?m k = Some v \<Longrightarrow> \<not> Contains k ?ua" by blast
    from h have m: "MatchString ocs_cloud (RequestURI req)" by blast
    have "range_strategies order 0 ?ss ?m req rw =
         (if ?ss = [] then rw
          else rw\<lparr>header := (header rw)(WwwAuthenticate \<mapsto>
                 Values (header rw) WwwAuthenticate @ map (\<lambda>s. challenge s (Host req)) ?ss)\<rparr>)"
      using m none by (rule range_strategies_fallback)
    then show "Values (sent ?out) WwwAuthenticate =
         Values (header rw) WwwAuthenticate @ map (\<lambda>s. challenge s (Host req)) ?ss"
      by (simp add: se Values_def)
  qed
  have c: "MatchString ocs_cloud (RequestURI req) \<and> ?agree \<and>
     (\<exists>k v. ?m k = Some v \<and> Contains ?ua k) \<and> ?ss \<noteq> [] \<longrightarrow>
       (\<exists>k v. ?m k = Some v \<and> Contains ?ua k \<and>
          Values (sent ?out) WwwAuthenticate = [challenge v (Host req)])"
  proof
    assume h: "MatchString ocs_cloud (RequestURI req) \<and> ?agree \<and>
     (\<exists>k v. ?m k = Some v \<and> Contains ?ua k) \<and> ?ss \<noteq> []"
    then have agree: "\<And>k v. ?m k = Some v \<Longrightarrow> Contains k ?ua = Contains ?ua k" by blast
    from h obtain k0 v0 where kv0: "?m k0 = Some v0" "Contains ?ua k0" by blast
    then have kv: "?m k0 = Some v0" "Contains k0 ?ua" using agree by simp_all
    have every: "\<And>i. \<exists>v. range_locks ?m (order i 0) ?ua = Some v"
      using all_locked[OF assms(5) kv] .
    from h have m: "MatchString ocs_cloud (RequestURI req)" and ne: "?ss \<noteq> []" by blast+
    from range_strategies_locked[of req ?m order ?ss 0 rw, OF m every ne]
    obtain k v where r: "?m k = Some v" "Contains k ?ua"
      "range_strategies order 0 ?ss ?m req rw =
         rw\<lparr>header := (header rw)(WwwAuthenticate \<mapsto> [challenge v (Host req)])\<rparr>"
      by blast
    then have "Contains ?ua k" using agree by simp
    with r have "?m k = Some v \<and> Contains ?ua k \<and>
          Values (sent ?out) WwwAuthenticate = [challenge v (Host req)]"
      by (simp add: se Values_def)
    then show "\<exists>k v. ?m k = Some v \<and> Contains ?ua k \<and>
          Values (sent ?out) WwwAuthenticate = [challenge v (Host req)]"
      by blast
  qed
  from st a b c show ?thesis by blast
qed

theorem C1_challenge_headers_witness:
  "\<not> handledByIdP (request ''GET'' ''/ocs/v1.php/cloud/user'' ''curl/8.0'') \<and>
   \<not> isPublicPath (URL_Path (request ''GET'' ''/ocs/v1.php/cloud/user'' ''curl/8.0'')) \<and>
   \<not> snd (decline (request ''GET'' ''/ocs/v1.php/cloud/user'' ''curl/8.0'')) \<and>
   status new_writer = None \<and>
   (\<forall>i j. key_order (CredentialsByUserAgent (with_locks legacy_lock))
            (always [''LegacySyncClient''] i j)) \<and>
   MatchString ocs_cloud (RequestURI (request ''GET'' ''/ocs/v1.php/cloud/user'' ''curl/8.0'')) \<and>
   \<not> Contains ''LegacySyncClient'' (UserAgent (request ''GET'' ''/ocs/v1.php/cloud/user'' ''curl/8.0'')) \<and>
   \<not> Contains (UserAgent (request ''GET'' ''/ocs/v1.php/cloud/user'' ''curl/8.0'')) ''LegacySyncClient'' \<and>
   status (response (ServeHTTP [decline] (with_locks legacy_lock) dav_methods
      (always [''LegacySyncClient'']) echo bearer_basic new_writer
      (request ''GET'' ''/ocs/v1.php/cloud/user'' ''curl/8.0''))) = Some 401 \<and>
   Values (sent (response (ServeHTTP [decline] (with_locks legacy_lock) dav_methods
      (always [''LegacySyncClient'']) echo bearer_basic new_writer
      (request ''GET'' ''/ocs/v1.php/cloud/user'' ''curl/8.0'')))) WwwAuthenticate =
     [challenge ''bearer'' ''cloud.example.org'', challenge ''basic'' ''cloud.example.org'']"
proof -
  let ?r = "request ''GET'' ''/ocs/v1.php/cloud/user'' ''curl/8.0''"
  have h1: "\<not> handledByIdP ?r" by (simp add: path_defs request_def)
  have h2: "\<not> isPublicPath (URL_Path ?r)" by (simp add: path_defs request_def)
  have h3: "\<forall>a\<in>set [decline]. \<not> snd (a ?r)" by (simp add: decline_def)
  have h4: "status new_writer = None" by (simp add: new_writer_def)
  have h5: "\<forall>i j. key_order (CredentialsByUserAgent (with_locks legacy_lock))
            (always [''LegacySyncClient''] i j)"
    by (simp add: with_locks_def always_def legacy_order)
  have h6: "MatchString ocs_cloud (RequestURI ?r)" by (simp add: request_def scope_defs)
  have ua: "UserAgent ?r = ''curl/8.0''" by (simp add: request_def UserAgent_def Get_def Values_def)
  have h7: "\<not> Contains ''LegacySyncClient'' (UserAgent ?r)" unfolding ua by simp
  have h7': "\<not> Contains (UserAgent ?r) ''LegacySyncClient''" unfolding ua by simp
  have h8: "\<forall>k v. CredentialsByUserAgent (with_locks legacy_lock) k = Some v \<longrightarrow>
              Contains k (UserAgent ?r) = Contains (UserAgent ?r) k"
    using h7 h7' by (simp add: with_locks_def legacy_lock_def)
  have h9: "\<forall>k v. CredentialsByUserAgent (with_locks legacy_lock) k = Some v \<longrightarrow>
              \<not> Contains (UserAgent ?r) k"
    using h7' by (simp add: with_locks_def legacy_lock_def)
  have e: "Values (header new_writer) WwwAuthenticate = []" "Host ?r = ''cloud.example.org''"
    "SupportedAuthStrategies bearer_basic = [''bearer'', ''basic'']"
    by (simp_all add: new_writer_def Values_def request_def bearer_basic_def)
  from C1_challenge_headers[where req = ?r and auths = "[decline]" and rw = new_writer
      and options = "with_locks legacy_lock" and shape = dav_methods
      and order = "always [''LegacySyncClient'']" and nxt = echo and g = bearer_basic,
      OF h1 h2 h3 h4 h5] h6 h8 h9
  have "status (response (ServeHTTP [decline] (with_locks legacy_lock) dav_methods
      (always [''LegacySyncClient'']) echo bearer_basic new_writer ?r)) = Some 401 \<and>
   Values (sent (response (ServeHTTP [decline] (with_locks legacy_lock) dav_methods
      (always [''LegacySyncClient'']) echo bearer_basic new_writer ?r))) WwwAuthenticate =
     Values (header new_writer) WwwAuthenticate @
       map (\<lambda>s. challenge s (Host ?r)) (SupportedAuthStrategies bearer_basic)"
    by blast
  with h1 h2 h3 h4 h5 h6 h7 h7' show ?thesis by (simp add: e)
qed

text \<open>
  Claim C1 as stated promises one value per supported scheme for every normal request.
  The WebDAV path of the spec's scenario is outside the scope pattern: with both schemes
  supported and no lock rule, the 401 carries no \<^verbatim>\<open>Www-Authenticate\<close> value.
\<close>

theorem C1_counterexample:
  "\<not> handledByIdP (request ''GET'' ''/remote.php/webdav/doc.txt'' ''curl/8.0'') \<and>
   \<not> isPublicPath (URL_Path (request ''GET'' ''/remote.php/webdav/doc.txt'' ''curl/8.0'')) \<and>
   \<not> snd (decline (request ''GET'' ''/remote.php/webdav/doc.txt'' ''curl/8.0'')) \<and>
   fst (Authentication [decline] (with_locks no_locks) dav_methods initial) = bearer_basic \<and>
   SupportedAuthStrategies bearer_basic = [''bearer'', ''basic''] \<and>
   status (response (ServeHTTP [decline] (with_locks no_locks) dav_methods (always []) echo
      bearer_basic new_writer (request ''GET'' ''/remote.php/webdav/doc.txt'' ''curl/8.0''))) =
     Some 401 \<and>
   Values (sent (response (ServeHTTP [decline] (with_locks no_locks) dav_methods (always []) echo
      bearer_basic new_writer (request ''GET'' ''/remote.php/webdav/doc.txt'' ''curl/8.0''))))
     WwwAuthenticate = []"
  by (simp add: handler_defs path_defs sample_defs Authentication_def
      configureSupportedChallenges_def initial_def)

subsection \<open>Claims about repeated evaluation and the empty user agent\<close>

text \<open>Two visiting orders give the same headers unless they can pick different schemes.\<close>

lemma range_strategies_orders:
  assumes "\<forall>i j. key_order m (order1 i j)"
    and "\<forall>i j. key_order m (order2 i j)"
    and "\<forall>k1 v1 k2 v2. m k1 = Some v1 \<and> Contains k1 (UserAgent req) \<and>
           m k2 = Some v2 \<and> Contains k2 (UserAgent req) \<longrightarrow> v1 = v2"
  shows "range_strategies order1 0 ss m req rw = range_strategies order2 0 ss m req rw"
proof (cases "MatchString ocs_cloud (RequestURI req)")
  case False
  then show ?thesis by (simp add: range_strategies_no_scope)
next
  case True
  show ?thesis
  proof (cases "\<exists>k v. m k = Some v \<and> Contains k (UserAgent req)")
    case False
    then have "\<And>k v. m k = Some v \<Longrightarrow> \<not> Contains k (UserAgent req)" by blast
    from range_strategies_fallback[OF True this] show ?thesis by simp
  next
    case locked: True
    then obtain k0 v0 where kv: "m k0 = Some v0" "Contains k0 (UserAgent req)" by blast
    show ?thesis
    proof (cases "ss = []")
      case True
      then show ?thesis by simp
    next
      case False
      have e1: "\<And>i. \<exists>v. range_locks m (order1 i 0) (UserAgent req) = Some v"
        using all_locked[OF assms(1) kv] .
      have e2: "\<And>i. \<exists>v. range_locks m (order2 i 0) (UserAgent req) = Some v"
        using all_locked[OF assms(2) kv] .
      from range_strategies_locked[of req m order1 ss 0 rw, OF True e1 False]
      obtain k1 v1 where r1: "m k1 = Some v1" "Contains k1 (UserAgent req)"
        "range_strategies order1 0 ss m req rw =
           rw\<lparr>header := (header rw)(WwwAuthenticate \<mapsto> [challenge v1 (Host req)])\<rparr>"
        by blast
      from range_strategies_locked[of req m order2 ss 0 rw, OF True e2 False]
      obtain k2 v2 where r2: "m k2 = Some v2" "Contains k2 (UserAgent req)"
        "range_strategies order2 0 ss m req rw =
           rw\<lparr>header := (header rw)(WwwAuthenticate \<mapsto> [challenge v2 (Host req)])\<rparr>"
        by blast
      have "v1 = v2" using assms(3) r1(1,2) r2(1,2) by blast
      then show ?thesis using r1(3) r2(3) by simp
    qed
  qed
qed

text \<open>The loop reads the request URI, the user agent and the host of the request only.\<close>

lemma range_strategies_reads:
  assumes "RequestURI req1 = RequestURI req2" "UserAgent req1 = UserAgent req2"
    "Host req1 = Host req2"
  shows "range_strategies order i ss m req1 rw = range_strategies order i ss m req2 rw"
proof (induction ss arbitrary: i rw)
  case Nil
  then show ?case by simp
next
  case (Cons s ss)
  have "userAgentAuthenticateLockIn (order i) rw req1 m s =
        userAgentAuthenticateLockIn (order i) rw req2 m s"
    using assms by (simp add: lockIn_single evalRequestURI_def split: option.splits)
  then show ?case by (simp add: Cons.IH)
qed

text \<open>Which Authenticators are called depends on their answers alone.\<close>

lemma range_auths_answers:
  assumes "\<forall>a\<in>set as. snd (a req1) = snd (a req2)"
  shows "snd (range_auths i as req1) = snd (range_auths i as req2)"
  using assms
proof (induction as arbitrary: i)
  case Nil
  then show ?case by simp
next
  case (Cons a as)
  then have ih: "snd (range_auths (Suc i) as req1) = snd (range_auths (Suc i) as req2)"
    and ok: "snd (a req1) = snd (a req2)"
    by simp_all
  show ?case
    using ih ok
    by (cases "a req1"; cases "a req2") (simp add: case_prod_beta)
qed

text \<open>
  Claim C8, as amended. Two evaluations under the same configuration and the same list
  of supported schemes, of requests that agree on the path, the request URI, the user
  agent and the host and get the same answers from the Authenticators, classify the
  request alike and call the same Authenticators; when the request is unauthenticated
  they send the same status and the same headers, and for one and the same request the
  whole outcome is the same, provided that all lock keys that contain the user agent
  map to the same scheme. Go visits the keys of a map in an order of its own choosing,
  so two such keys with different schemes leave the choice of the emitted challenge to
  that order.
\<close>

theorem C8_same_decision_unless_lock_is_ambiguous:
  assumes "\<forall>i j. key_order (CredentialsByUserAgent options) (order1 i j)"
    and "\<forall>i j. key_order (CredentialsByUserAgent options) (order2 i j)"
    and "\<forall>k1 v1 k2 v2.
           CredentialsByUserAgent options k1 = Some v1 \<and> Contains k1 (UserAgent req1) \<and>
           CredentialsByUserAgent options k2 = Some v2 \<and> Contains k2 (UserAgent req1) \<longrightarrow>
           v1 = v2"
    and "URL_Path req1 = URL_Path req2" "RequestURI req1 = RequestURI req2"
    and "UserAgent req1 = UserAgent req2" "Host req1 = Host req2"
    and "\<forall>a\<in>set auths. snd (a req1) = snd (a req2)"
  shows "handledByIdP req1 = handledByIdP req2 \<and>
         isPublicPath (URL_Path req1) = isPublicPath (URL_Path req2) \<and>
         called (ServeHTTP auths options shape order1 nxt g rw req1) =
           called (ServeHTTP auths options shape order2 nxt g rw req2) \<and>
         (\<not> handledByIdP req1 \<and> (\<forall>a\<in>set auths. \<not> snd (a req1)) \<and> status rw = None \<longrightarrow>
            status (response (ServeHTTP auths options shape order1 nxt g rw req1)) =
              status (response (ServeHTTP auths options shape order2 nxt g rw req2)) \<and>
            sent (response (ServeHTTP auths options shape order1 nxt g rw req1)) =
              sent (response (ServeHTTP auths options shape order2 nxt g rw req2))) \<and>
         (req1 = req2 \<longrightarrow>
            ServeHTTP auths options shape order1 nxt g rw req1 =
              ServeHTTP auths options shape order2 nxt g rw req2)"
proof -
  let ?m = "CredentialsByUserAgent options"
  let ?ss = "SupportedAuthStrategies g"
  have idp: "handledByIdP req1 = handledByIdP req2"
    using assms(4) by (simp add: handledByIdP_def isOIDCTokenAuth_def)
  have pub: "isPublicPath (URL_Path req1) = isPublicPath (URL_Path req2)"
    using assms(4) by simp
  have cal: "called (ServeHTTP auths options shape order1 nxt g rw req1) =
           called (ServeHTTP auths options shape order2 nxt g rw req2)"
    using idp range_auths_answers[OF assms(8), of 0] by (simp add: called_bypass_or_loop)
  have loops: "range_strategies order1 0 ?ss ?m req1 rw = range_strategies order2 0 ?ss ?m req2 rw"
  proof -
    have "range_strategies order1 0 ?ss ?m req1 rw = range_strategies order2 0 ?ss ?m req1 rw"
      using assms(1,2,3) by (rule range_strategies_orders)
    also have "\<dots> = range_strategies order2 0 ?ss ?m req2 rw"
      using assms(5,6,7) by (rule range_strategies_reads)
    finally show ?thesis .
  qed
  have un: "\<not> handledByIdP req1 \<and> (\<forall>a\<in>set auths. \<not> snd (a req1)) \<and> status rw = None \<longrightarrow>
            status (response (ServeHTTP auths options shape order1 nxt g rw req1)) =
              status (response (ServeHTTP auths options shape order2 nxt g rw req2)) \<and>
            sent (response (ServeHTTP auths options shape order1 nxt g rw req1)) =
              sent (response (ServeHTTP auths options shape order2 nxt g rw req2))"
  proof
    assume h: "\<not> handledByIdP req1 \<and> (\<forall>a\<in>set auths. \<not> snd (a req1)) \<and> status rw = None"
    then have h1: "\<not> handledByIdP req1" "\<forall>a\<in>set auths. \<not> snd (a req1)" "status rw = None"
      by simp_all
    have h2: "\<not> handledByIdP req2" "\<forall>a\<in>set auths. \<not> snd (a req2)"
      using h1 idp assms(8) by simp_all
    show "status (response (ServeHTTP auths options shape order1 nxt g rw req1)) =
              status (response (ServeHTTP auths options shape order2 nxt g rw req2)) \<and>
            sent (response (ServeHTTP auths options shape order1 nxt g rw req1)) =
              sent (response (ServeHTTP auths options shape order2 nxt g rw req2))"
      using unauthenticated_response(1,2)[OF h1, of options shape order1 nxt g]
        unauthenticated_response(1,2)[OF h2 h1(3), of options shape order2 nxt g]
        loops pub
      by simp
  qed
  have same: "req1 = req2 \<longrightarrow>
            ServeHTTP auths options shape order1 nxt g rw req1 =
              ServeHTTP auths options shape order2 nxt g rw req2"
  proof
    assume e: "req1 = req2"
    with loops have "range_strategies order1 0 ?ss ?m req2 rw = range_strategies order2 0 ?ss ?m req2 rw"
      by simp
    then show "ServeHTTP auths options shape order1 nxt g rw req1 =
              ServeHTTP auths options shape order2 nxt g rw req2"
      unfolding e by (simp add: ServeHTTP_def Let_def split: prod.splits option.splits)
  qed
  from idp pub cal un same show ?thesis by blast
qed

theorem C8_same_decision_unless_lock_is_ambiguous_witness:
  "(\<forall>i j. key_order (CredentialsByUserAgent (with_locks two_locks))
            (always [''mirall-old'', ''mirall-new''] i j)) \<and>
   (\<forall>i j. key_order (CredentialsByUserAgent (with_locks two_locks))
            (always [''mirall-new'', ''mirall-old''] i j)) \<and>
   Contains ''mirall-new'' (UserAgent (request ''GET'' ''/ocs/v1.php/cloud/user'' ''new'')) \<and>
   \<not> Contains ''mirall-old'' (UserAgent (request ''GET'' ''/ocs/v1.php/cloud/user'' ''new'')) \<and>
   \<not> handledByIdP (request ''GET'' ''/ocs/v1.php/cloud/user'' ''new'') \<and>
   \<not> snd (decline (request ''GET'' ''/ocs/v1.php/cloud/user'' ''new'')) \<and>
   \<not> snd (decline (request ''PROPFIND'' ''/ocs/v1.php/cloud/user'' ''new'')) \<and>
   status new_writer = None \<and>
   sent (response (ServeHTTP [decline] (with_locks two_locks) dav_methods
       (always [''mirall-old'', ''mirall-new'']) echo bearer_basic new_writer
       (request ''GET'' ''/ocs/v1.php/cloud/user'' ''new''))) =
     sent (response (ServeHTTP [decline] (with_locks two_locks) dav_methods
       (always [''mirall-new'', ''mirall-old'']) echo bearer_basic new_writer
       (request ''PROPFIND'' ''/ocs/v1.php/cloud/user'' ''new''))) \<and>
   Values (sent (response (ServeHTTP [decline] (with_locks two_locks) dav_methods
       (always [''mirall-old'', ''mirall-new'']) echo bearer_basic new_writer
       (request ''GET'' ''/ocs/v1.php/cloud/user'' ''new'')))) WwwAuthenticate =
     [challenge ''bearer'' ''cloud.example.org'']"
proof -
  let ?r1 = "request ''GET'' ''/ocs/v1.php/cloud/user'' ''new''"
  let ?r2 = "request ''PROPFIND'' ''/ocs/v1.php/cloud/user'' ''new''"
  have h1: "\<forall>i j. key_order (CredentialsByUserAgent (with_locks two_locks))
            (always [''mirall-old'', ''mirall-new''] i j)"
    by (simp add: with_locks_def always_def two_locks_orders)
  have h2: "\<forall>i j. key_order (CredentialsByUserAgent (with_locks two_locks))
            (always [''mirall-new'', ''mirall-old''] i j)"
    by (simp add: with_locks_def always_def two_locks_orders)
  have ua: "UserAgent ?r1 = ''new''" by (simp add: request_def UserAgent_def Get_def Values_def)
  have c1: "Contains ''mirall-new'' (UserAgent ?r1)" unfolding ua by simp
  have c2: "\<not> Contains ''mirall-old'' (UserAgent ?r1)" unfolding ua by simp
  have h3: "\<forall>k1 v1 k2 v2.
           CredentialsByUserAgent (with_locks two_locks) k1 = Some v1 \<and> Contains k1 (UserAgent ?r1) \<and>
           CredentialsByUserAgent (with_locks two_locks) k2 = Some v2 \<and> Contains k2 (UserAgent ?r1) \<longrightarrow>
           v1 = v2"
    using c2 by (auto simp: with_locks_def two_locks_def split: if_splits)
  have h4: "URL_Path ?r1 = URL_Path ?r2" "RequestURI ?r1 = RequestURI ?r2"
    "UserAgent ?r1 = UserAgent ?r2" "Host ?r1 = Host ?r2"
    by (simp_all add: request_def UserAgent_def)
  have h8: "\<forall>a\<in>set [decline]. snd (a ?r1) = snd (a ?r2)" by (simp add: decline_def)
  have n1: "\<not> handledByIdP ?r1" by (simp add: path_defs request_def)
  have n2: "\<not> snd (decline ?r1)" "\<not> snd (decline ?r2)" by (simp_all add: decline_def)
  have n3: "status new_writer = None" by (simp add: new_writer_def)
  have v: "Values (sent (response (ServeHTTP [decline] (with_locks two_locks) dav_methods
       (always [''mirall-old'', ''mirall-new'']) echo bearer_basic new_writer ?r1))) WwwAuthenticate =
     [challenge ''bearer'' ''cloud.example.org'']"
    by (simp add: handler_defs path_defs sample_defs)
  from C8_same_decision_unless_lock_is_ambiguous[where options = "with_locks two_locks"
      and ?order1.0 = "always [''mirall-old'', ''mirall-new'']"
      and ?order2.0 = "always [''mirall-new'', ''mirall-old'']" and ?req1.0 = ?r1 and ?req2.0 = ?r2
      and auths = "[decline]" and shape = dav_methods and nxt = echo and g = bearer_basic
      and rw = new_writer, OF h1 h2 h3 h4 h8] n1 n2 n3
  have "sent (response (ServeHTTP [decline] (with_locks two_locks) dav_methods
       (always [''mirall-old'', ''mirall-new'']) echo bearer_basic new_writer ?r1)) =
     sent (response (ServeHTTP [decline] (with_locks two_locks) dav_methods
       (always [''mirall-new'', ''mirall-old'']) echo bearer_basic new_writer ?r2))"
    by simp
  with h1 h2 c1 c2 n1 n2 n3 v show ?thesis by simp
qed

text \<open>
  Claim C8 as stated makes the emitted headers a function of the request and the
  configuration. With two lock keys that both contain the user agent \<^verbatim>\<open>mirall\<close>,
  the same request under the same configuration gets the Basic challenge in one
  visiting order of the map and the Bearer challenge in the other.
\<close>

theorem C8_counterexample:
  "key_order (CredentialsByUserAgent (with_locks two_locks)) [''mirall-old'', ''mirall-new''] \<and>
   key_order (CredentialsByUserAgent (with_locks two_locks)) [''mirall-new'', ''mirall-old''] \<and>
   Values (sent (response (ServeHTTP [decline] (with_locks two_locks) dav_methods
       (always [''mirall-old'', ''mirall-new'']) echo bearer_basic new_writer
       (request ''GET'' ''/ocs/v1.php/cloud/user'' ''mirall'')))) WwwAuthenticate =
     [challenge ''basic'' ''cloud.example.org''] \<and>
   Values (sent (response (ServeHTTP [decline] (with_locks two_locks) dav_methods
       (always [''mirall-new'', ''mirall-old'']) echo bearer_basic new_writer
       (request ''GET'' ''/ocs/v1.php/cloud/user'' ''mirall'')))) WwwAuthenticate =
     [challenge ''bearer'' ''cloud.example.org''] \<and>
   challenge ''bearer'' ''cloud.example.org'' \<noteq> challenge ''basic'' ''cloud.example.org''"
proof -
  have "Values (sent (response (ServeHTTP [decline] (with_locks two_locks) dav_methods
       (always [''mirall-old'', ''mirall-new'']) echo bearer_basic new_writer
       (request ''GET'' ''/ocs/v1.php/cloud/user'' ''mirall'')))) WwwAuthenticate =
     [challenge ''basic'' ''cloud.example.org'']"
    by (simp add: handler_defs path_defs sample_defs)
  moreover have "Values (sent (response (ServeHTTP [decline] (with_locks two_locks) dav_methods
       (always [''mirall-new'', ''mirall-old'']) echo bearer_basic new_writer
       (request ''GET'' ''/ocs/v1.php/cloud/user'' ''mirall'')))) WwwAuthenticate =
     [challenge ''bearer'' ''cloud.example.org'']"
    by (simp add: handler_defs path_defs sample_defs)
  ultimately show ?thesis
    by (simp add: with_locks_def two_locks_orders challenges_differ)
qed

text \<open>
  Claim C10, as amended. For a request that is neither handled by the identity provider
  nor public, that every Authenticator declines and whose URI matches the scope pattern:
  when the lock map is not empty and the user agent is empty, the substring test holds
  for every key, no map loop reaches the fallback, and, provided at least one scheme is
  supported, the response carries exactly one challenge, that of the scheme of some key.
\<close>

theorem C10_empty_user_agent_is_locked:
  assumes "\<not> handledByIdP req"
    and "\<not> isPublicPath (URL_Path req)"
    and "\<forall>a\<in>set auths. \<not> snd (a req)"
    and "status rw = None"
    and "MatchString ocs_cloud (RequestURI req)"
    and "UserAgent req = []"
    and "CredentialsByUserAgent options \<noteq> Map.empty"
    and "\<forall>i j. key_order (CredentialsByUserAgent options) (order i j)"
    and "SupportedAuthStrategies g \<noteq> []"
  shows "(\<forall>k. Contains k (UserAgent req)) \<and>
         (\<forall>i j. range_locks (CredentialsByUserAgent options) (order i j) (UserAgent req) \<noteq> None) \<and>
         (\<exists>k v. CredentialsByUserAgent options k = Some v \<and>
            Values (sent (response (ServeHTTP auths options shape order nxt g rw req)))
              WwwAuthenticate = [challenge v (Host req)])"
proof -
  let ?m = "CredentialsByUserAgent options"
  let ?out = "response (ServeHTTP auths options shape order nxt g rw req)"
  have every: "\<forall>k. Contains k (UserAgent req)" by (simp add: assms(6) Contains_empty)
  obtain k0 v0 where kv: "?m k0 = Some v0" using assms(7) by fastforce
  have hit: "\<forall>i j. range_locks ?m (order i j) (UserAgent req) \<noteq> None"
  proof (intro allI)
    fix i j
    have "key_order ?m (order i j)" using assms(8) by blast
    from key_order_locked[OF this kv, of "UserAgent req"] every
    show "range_locks ?m (order i j) (UserAgent req) \<noteq> None" by auto
  qed
  have se: "sent ?out = header (range_strategies order 0 (SupportedAuthStrategies g) ?m req rw)"
    using unauthenticated_response(2)[OF assms(1,3,4)] assms(2) by simp
  have "\<And>i. \<exists>v. range_locks ?m (order i 0) (UserAgent req) = Some v"
    using hit by auto
  from range_strategies_locked[of req ?m order "SupportedAuthStrategies g" 0 rw,
      OF assms(5) this assms(9)]
  obtain k v where "?m k = Some v"
    "range_strategies order 0 (SupportedAuthStrategies g) ?m req rw =
       rw\<lparr>header := (header rw)(WwwAuthenticate \<mapsto> [challenge v (Host req)])\<rparr>"
    by blast
  then have "?m k = Some v \<and> Values (sent ?out) WwwAuthenticate = [challenge v (Host req)]"
    by (simp add: se Values_def)
  then have "\<exists>k v. ?m k = Some v \<and> Values (sent ?out) WwwAuthenticate = [challenge v (Host req)]"
    by blast
  with every hit show ?thesis by blast
qed

theorem C10_empty_user_agent_is_locked_witness:
  "\<not> handledByIdP (request ''GET'' ''/ocs/v2.php/cloud/user'' []) \<and>
   \<not> isPublicPath (URL_Path (request ''GET'' ''/ocs/v2.php/cloud/user'' [])) \<and>
   \<not> snd (decline (request ''GET'' ''/ocs/v2.php/cloud/user'' [])) \<and>
   status new_writer = None \<and>
   MatchString ocs_cloud (RequestURI (request ''GET'' ''/ocs/v2.php/cloud/user'' [])) \<and>
   UserAgent (request ''GET'' ''/ocs/v2.php/cloud/user'' []) = [] \<and>
   CredentialsByUserAgent (with_locks legacy_lock) ''LegacySyncClient'' = Some ''basic'' \<and>
   (\<forall>i j. key_order (CredentialsByUserAgent (with_locks legacy_lock))
            (always [''LegacySyncClient''] i j)) \<and>
   SupportedAuthStrategies bearer_basic = [''bearer'', ''basic''] \<and>
   Values (sent (response (ServeHTTP [decline] (with_locks legacy_lock) dav_methods
      (always [''LegacySyncClient'']) echo bearer_basic new_writer
      (request ''GET'' ''/ocs/v2.php/cloud/user'' [])))) WwwAuthenticate =
     [challenge ''basic'' ''cloud.example.org'']"
proof -
  let ?r = "request ''GET'' ''/ocs/v2.php/cloud/user'' []"
  let ?o = "with_locks legacy_lock"
  have h1: "\<not> handledByIdP ?r" by (simp add: path_defs request_def)
  have h2: "\<not> isPublicPath (URL_Path ?r)" by (simp add: path_defs request_def)
  have h3: "\<forall>a\<in>set [decline]. \<not> snd (a ?r)" by (simp add: decline_def)
  have h4: "status new_writer = None" by (simp add: new_writer_def)
  have h5: "MatchString ocs_cloud (RequestURI ?r)" by (simp add: request_def scope_defs)
  have h6: "UserAgent ?r = []" by (simp add: request_def UserAgent_def Get_def Values_def)
  have lk: "CredentialsByUserAgent ?o ''LegacySyncClient'' = Some ''basic''"
    by (simp add: with_locks_def legacy_lock_def)
  then have h7: "CredentialsByUserAgent ?o \<noteq> Map.empty" by auto
  have h8: "\<forall>i j. key_order (CredentialsByUserAgent ?o) (always [''LegacySyncClient''] i j)"
    by (simp add: with_locks_def always_def legacy_order)
  have h9: "SupportedAuthStrategies bearer_basic \<noteq> []" by (simp add: bearer_basic_def)
  have only: "\<And>k v. CredentialsByUserAgent ?o k = Some v \<Longrightarrow> v = ''basic''"
    by (auto simp: with_locks_def legacy_lock_def split: if_splits)
  from C10_empty_user_agent_is_locked[where req = ?r and auths = "[decline]" and rw = new_writer
      and options = ?o and shape = dav_methods and order = "always [''LegacySyncClient'']"
      and nxt = echo and g = bearer_basic, OF h1 h2 h3 h4 h5 h6 h7 h8 h9]
  obtain k v where "CredentialsByUserAgent ?o k = Some v"
    "Values (sent (response (ServeHTTP [decline] ?o dav_methods (always [''LegacySyncClient''])
        echo bearer_basic new_writer ?r))) WwwAuthenticate = [challenge v (Host ?r)]"
    by blast
  with only have "Values (sent (response (ServeHTTP [decline] ?o dav_methods
        (always [''LegacySyncClient'']) echo bearer_basic new_writer ?r))) WwwAuthenticate =
      [challenge ''basic'' (Host ?r)]"
    by blast
  with h1 h2 h3 h4 h5 h6 lk h8 show ?thesis by (simp add: request_def bearer_basic_def)
qed

text \<open>
  Claim C10 as stated promises the one locked challenge always. With no supported
  scheme (no issuer, Basic disabled) the loop over the strategies has nothing to run
  through, and the 401 carries no challenge although the lock map is not empty.
\<close>

theorem C10_counterexample:
  "\<not> handledByIdP (request ''GET'' ''/ocs/v2.php/cloud/user'' []) \<and>
   \<not> isPublicPath (URL_Path (request ''GET'' ''/ocs/v2.php/cloud/user'' [])) \<and>
   \<not> snd (decline (request ''GET'' ''/ocs/v2.php/cloud/user'' [])) \<and>
   MatchString ocs_cloud (RequestURI (request ''GET'' ''/ocs/v2.php/cloud/user'' [])) \<and>
   UserAgent (request ''GET'' ''/ocs/v2.php/cloud/user'' []) = [] \<and>
   CredentialsByUserAgent (no_schemes legacy_lock) ''LegacySyncClient'' = Some ''basic'' \<and>
   key_order (CredentialsByUserAgent (no_schemes legacy_lock)) [''LegacySyncClient''] \<and>
   fst (Authentication [decline] (no_schemes legacy_lock) dav_methods initial) = initial \<and>
   status (response (ServeHTTP [decline] (no_schemes legacy_lock) dav_methods
      (always [''LegacySyncClient'']) echo initial new_writer
      (request ''GET'' ''/ocs/v2.php/cloud/user'' []))) = Some 401 \<and>
   Values (sent (response (ServeHTTP [decline] (no_schemes legacy_lock) dav_methods
      (always [''LegacySyncClient'']) echo initial new_writer
      (request ''GET'' ''/ocs/v2.php/cloud/user'' [])))) WwwAuthenticate = []"
  by (simp add: handler_defs path_defs sample_defs Authentication_def
      configureSupportedChallenges_def initial_def key_order_def)

end
